theory Spec2Isabelle
  imports Complex_Main "HOL-Library.AList"
begin

section \<open>The scene graph of the scenes service\<close>

text \<open>
  The theory embeds \<^verbatim>\<open>ScenesService\<close> (the class of
  \<^verbatim>\<open>src/app/services/notifications/notifications-api.ts\<close>, lines 83 to 332) and
  the operations of the \<^verbatim>\<open>Scene\<close> and \<^verbatim>\<open>SceneItem\<close> classes it calls.
  The two classes and the sources registry are not among the source files; they are
  modelled from the specification and every such definition says so.

  Conventions. A call of the service is a function from the world before the call to
  the world after it, the list of effects in the order they happen, and what the call
  returns. A handle (\<^verbatim>\<open>new Scene(id)\<close>) is the id it wraps. A dictionary is an
  association list kept in the order of \<^verbatim>\<open>Object.keys\<close>; lookups are lookups of
  own properties. Numbers are real numbers in exact arithmetic.
\<close>

subsection \<open>Data\<close>

record ICrop =
  cropTop :: real
  cropBottom :: real
  cropLeft :: real
  cropRight :: real

record ITransform =
  positionX :: real
  positionY :: real
  scaleX :: real
  scaleY :: real
  rotation :: real
  crop :: ICrop

record ISceneItem =
  sceneItemId :: string
  sourceId :: string
  transform :: ITransform
  visible :: bool
  locked :: bool
  parentId :: "string option"

record ISceneItemFolder =
  folderId :: string
  folderName :: string
  childrenIds :: "string list"
  folderParentId :: "string option"

datatype TSceneNode = Item ISceneItem | Folder ISceneItemFolder

text \<open>\<^verbatim>\<open>IScene\<close>, as \<^verbatim>\<open>ADD_SCENE\<close> builds it (the field \<^verbatim>\<open>id\<close> is \<open>id'\<close> here).\<close>

record IScene =
  id' :: string
  name :: string
  resourceId :: string
  nodes :: "TSceneNode list"

text \<open>\<^verbatim>\<open>IScenesState\<close>, with the fields of \<^verbatim>\<open>initialState\<close>.\<close>

record IScenesState =
  activeSceneId :: string
  displayOrder :: "string list"
  scenes :: "(string \<times> IScene) list"

record ISource =
  srcId :: string
  srcName :: string
  srcType :: string

text \<open>
  The world of a call: the state of the scenes service, the registry of the sources
  service, and the unique ids of the main process (\<^verbatim>\<open>getUniqueId\<close>): the sequence of
  its answers and how many were taken.
\<close>

record World =
  state :: IScenesState
  sources :: "(string \<times> ISource) list"
  uniqueId :: "nat \<Rightarrow> string"
  uidCount :: nat

text \<open>
  The six subjects of the service as constructors of one type; an item event names the
  scene of the item. \<open>Alert\<close> is the call of \<^verbatim>\<open>alert\<close>.
\<close>

datatype effect =
    SceneAdded IScene
  | SceneRemoved IScene
  | SceneSwitched IScene
  | ItemAdded string ISceneItem
  | ItemRemoved string ISceneItem
  | ItemUpdated string ISceneItem
  | Alert string

datatype 'a outcome = Returned 'a | TypeError

record ISceneCreateOptions =
  duplicateSourcesFromScene :: "string option"
  sceneId :: "string option"
  makeActive :: bool

definition initialState :: IScenesState where
  "initialState = \<lparr>activeSceneId = '''', displayOrder = [], scenes = []\<rparr>"

subsection \<open>Objects as dictionaries\<close>

text \<open>
  \<^verbatim>\<open>Object.keys\<close> lists the keys that are array indices first, in ascending order, and
  the other keys after them in the order of their creation. An array index is the
  decimal numeral, with no leading zero, of a number below \<open>2^32 - 1\<close>.
\<close>

definition isDigit :: "char \<Rightarrow> bool" where
  "isDigit c = (48 \<le> (of_char c :: int) \<and> (of_char c :: int) \<le> 57)"

definition decimalValue :: "string \<Rightarrow> int" where
  "decimalValue s = foldl (\<lambda>n c. 10 * n + (of_char c - 48)) 0 s"

definition isArrayIndex :: "string \<Rightarrow> bool" where
  "isArrayIndex s =
     (s \<noteq> [] \<and> list_all isDigit s \<and> (if hd s = CHR ''0'' then s = ''0'' else True)
      \<and> decimalValue s < 4294967295)"

fun insertIndexKey :: "string \<Rightarrow> 'v \<Rightarrow> (string \<times> 'v) list \<Rightarrow> (string \<times> 'v) list" where
  "insertIndexKey k v [] = [(k, v)]"
| "insertIndexKey k v (e # d) =
     (if isArrayIndex (fst e) \<and> decimalValue (fst e) < decimalValue k
      then e # insertIndexKey k v d
      else (k, v) # e # d)"

text \<open>\<^verbatim>\<open>Vue.set(obj, k, v)\<close>: an existing key keeps its place, a new one is created.\<close>

definition objSet :: "(string \<times> 'v) list \<Rightarrow> string \<Rightarrow> 'v \<Rightarrow> (string \<times> 'v) list" where
  "objSet d k v =
     (if k \<notin> set (map fst d) \<and> isArrayIndex k then insertIndexKey k v d
      else AList.update k v d)"

text \<open>\<^verbatim>\<open>JSON.stringify\<close> of a string of ASCII characters.\<close>

definition hexDigit :: "nat \<Rightarrow> char" where
  "hexDigit n = ''0123456789abcdef'' ! (n mod 16)"

definition jsonEscape :: "char \<Rightarrow> string" where
  "jsonEscape c =
     (if c = CHR 0x22 then [CHR 0x5C, CHR 0x22]
      else if c = CHR 0x5C then [CHR 0x5C, CHR 0x5C]
      else if c = CHR 0x08 then [CHR 0x5C, CHR ''b'']
      else if c = CHR 0x0C then [CHR 0x5C, CHR ''f'']
      else if c = CHR 0x0A then [CHR 0x5C, CHR ''n'']
      else if c = CHR 0x0D then [CHR 0x5C, CHR ''r'']
      else if c = CHR 0x09 then [CHR 0x5C, CHR ''t'']
      else if (of_char c :: nat) < 32
        then [CHR 0x5C, CHR ''u'', CHR ''0'', CHR ''0'',
              hexDigit (of_char c div 16), hexDigit (of_char c)]
      else [c])"

definition jsonString :: "string \<Rightarrow> string" where
  "jsonString s = [CHR 0x22] @ concat (map jsonEscape s) @ [CHR 0x22]"

subsection \<open>The mutations of the service\<close>

definition ADD_SCENE :: "string \<Rightarrow> string \<Rightarrow> IScenesState \<Rightarrow> IScenesState" where
  "ADD_SCENE i n s =
     s\<lparr>scenes := objSet (scenes s) i
          \<lparr>id' = i, name = n, resourceId = ''Scene['' @ jsonString i @ '']'', nodes = []\<rparr>,
       displayOrder := displayOrder s @ [i],
       activeSceneId := (if activeSceneId s \<noteq> '''' then activeSceneId s else i)\<rparr>"

definition REMOVE_SCENE :: "string \<Rightarrow> IScenesState \<Rightarrow> IScenesState" where
  "REMOVE_SCENE i s =
     s\<lparr>scenes := AList.delete i (scenes s),
       displayOrder := removeAll i (displayOrder s)\<rparr>"

definition MAKE_SCENE_ACTIVE :: "string \<Rightarrow> IScenesState \<Rightarrow> IScenesState" where
  "MAKE_SCENE_ACTIVE i s = s\<lparr>activeSceneId := i\<rparr>"

definition SET_SCENE_ORDER :: "string list \<Rightarrow> IScenesState \<Rightarrow> IScenesState" where
  "SET_SCENE_ORDER order s = s\<lparr>displayOrder := order\<rparr>"

definition mutate :: "(IScenesState \<Rightarrow> IScenesState) \<Rightarrow> World \<Rightarrow> World" where
  "mutate f w = w\<lparr>state := f (state w)\<rparr>"

subsection \<open>The getters of the service\<close>

definition sceneModel :: "World \<Rightarrow> string \<Rightarrow> IScene option" where
  "sceneModel w i = map_of (scenes (state w)) i"

text \<open>
  \<^verbatim>\<open>getScene\<close> tests \<^verbatim>\<open>this.state.scenes[id]\<close>. The model looks up the keys of the
  dictionary itself; an id that is the name of a member every object inherits
  (\<^verbatim>\<open>constructor\<close>, \<^verbatim>\<open>toString\<close> and the like) is outside the model, here and in
  \<^verbatim>\<open>makeSceneActive\<close> and \<^verbatim>\<open>removeScene\<close>.
\<close>

definition getScene :: "World \<Rightarrow> string \<Rightarrow> string option" where
  "getScene w i = (case sceneModel w i of None \<Rightarrow> None | Some sc \<Rightarrow> Some i)"

definition getSceneByName :: "World \<Rightarrow> string \<Rightarrow> string option" where
  "getSceneByName w n =
     (case foldl (\<lambda>found e. if name (snd e) = n then Some (snd e) else found)
             None (scenes (state w)) of
        None \<Rightarrow> None
      | Some foundScene \<Rightarrow> getScene w (id' foundScene))"

definition getScenes :: "World \<Rightarrow> string option list" where
  "getScenes w = map (getScene w) (displayOrder (state w))"

subsection \<open>The sources registry and the scene and scene-item classes\<close>

text \<open>
  Modelled from the spec: \<^verbatim>\<open>SourcesService.addSource\<close>, which is not among the source
  files. The spec, section 3 and 4.1: a source has an id, a type and a display name;
  \<^verbatim>\<open>createScene\<close> "registers it as a source (so it is embeddable)". The native scene
  that \<^verbatim>\<open>obs.SceneFactory.create(id)\<close> makes carries the id of the scene.
\<close>

definition Sources_addSource :: "World \<Rightarrow> string \<Rightarrow> string \<Rightarrow> string \<Rightarrow> World" where
  "Sources_addSource w i n t =
     w\<lparr>sources := objSet (sources w) i \<lparr>srcId = i, srcName = n, srcType = t\<rparr>\<rparr>"

definition isSceneSource :: "World \<Rightarrow> string \<Rightarrow> bool" where
  "isSceneSource w i =
     (case map_of (sources w) i of None \<Rightarrow> False | Some s \<Rightarrow> srcType s = ''scene'')"

text \<open>
  Modelled from the spec: \<^verbatim>\<open>Scene.getItems\<close>, which is not among the source files. The
  spec, section 3: a node is an item or a folder; section 8: the items are read in the
  order of the node list, the most recently added first.
\<close>

definition itemsOf :: "TSceneNode list \<Rightarrow> ISceneItem list" where
  "itemsOf ns = concat (map (\<lambda>n. case n of Item it \<Rightarrow> [it] | Folder f \<Rightarrow> []) ns)"

definition getItems :: "World \<Rightarrow> string \<Rightarrow> ISceneItem list" where
  "getItems w scene = (case sceneModel w scene of None \<Rightarrow> [] | Some sc \<Rightarrow> itemsOf (nodes sc))"

text \<open>
  Modelled from the spec: the mutation of the \<^verbatim>\<open>Scene\<close> class that stores the node list of
  a scene, which is not among the source files. The scene object stays in its place in
  \<^verbatim>\<open>state.scenes\<close> and only its \<^verbatim>\<open>nodes\<close> change.
\<close>

definition setNodes :: "string \<Rightarrow> TSceneNode list \<Rightarrow> IScenesState \<Rightarrow> IScenesState" where
  "setNodes scene ns s =
     s\<lparr>scenes :=
         map (\<lambda>e. if fst e = scene then (fst e, (snd e)\<lparr>nodes := ns\<rparr>) else e) (scenes s)\<rparr>"

text \<open>
  Modelled from the spec: the cycle check of \<^verbatim>\<open>Scene.addSource\<close>, which is not among
  the source files. The spec, section 4.1: "walk the candidate source's own node list
  transitively (itself is a scene graph) and refuse insertion if the target scene id
  appears anywhere in that transitive closure"; it "prevents both direct self-embedding
  and indirect cycles". The walk descends at most as many levels as the graph has nodes.
\<close>

definition nestedSceneIds :: "World \<Rightarrow> string \<Rightarrow> string list" where
  "nestedSceneIds w scene = filter (isSceneSource w) (map sourceId (getItems w scene))"

fun hasNestedScene :: "nat \<Rightarrow> World \<Rightarrow> string \<Rightarrow> string \<Rightarrow> bool" where
  "hasNestedScene 0 w scene target = False"
| "hasNestedScene (Suc depth) w scene target =
     list_ex (\<lambda>child. child = target \<or> hasNestedScene depth w child target)
       (nestedSceneIds w scene)"

definition nodeCount :: "World \<Rightarrow> nat" where
  "nodeCount w = length (concat (map (\<lambda>e. nodes (snd e)) (scenes (state w))))"

definition canAddSource :: "World \<Rightarrow> string \<Rightarrow> string \<Rightarrow> bool" where
  "canAddSource w scene source =
     (case map_of (sources w) source of
        None \<Rightarrow> False
      | Some s \<Rightarrow>
          if srcType s \<noteq> ''scene'' then True
          else if scene = source then False
          else \<not> hasNestedScene (nodeCount w) w source scene)"

text \<open>
  Modelled from the spec: \<^verbatim>\<open>Scene.addSource\<close>, which is not among the source files.
  The spec, section 4.1: \<^verbatim>\<open>addSource(sceneId, sourceId)\<close> gives an item or a refusal; a
  refusal is silent, "the operation is simply not applied"; section 7: an unknown id
  gives a null result; section 8: one item-added event carrying the new item, and the
  new item is read first.
\<close>

definition defaultTransform :: ITransform where
  "defaultTransform =
     \<lparr>positionX = 0, positionY = 0, scaleX = 1, scaleY = 1, rotation = 0,
      crop = \<lparr>cropTop = 0, cropBottom = 0, cropLeft = 0, cropRight = 0\<rparr>\<rparr>"

definition addSource :: "World \<Rightarrow> string \<Rightarrow> string \<Rightarrow> World \<times> effect list \<times> string option" where
  "addSource w scene source =
     (case sceneModel w scene of
        None \<Rightarrow> (w, [], None)
      | Some sc \<Rightarrow>
          if \<not> canAddSource w scene source then (w, [], None)
          else
            let newId = uniqueId w (uidCount w);
                item = \<lparr>sceneItemId = newId, sourceId = source, transform = defaultTransform,
                        visible = True, locked = False, parentId = None\<rparr>
            in (mutate (setNodes scene (Item item # nodes sc)) (w\<lparr>uidCount := Suc (uidCount w)\<rparr>),
                [ItemAdded scene item], Some newId))"

text \<open>
  Modelled from the spec: \<^verbatim>\<open>Scene.createAndAddSource\<close>, which is not among the source
  files (the tests call it with a name and a type): a new source is registered under a
  new id and added to the scene.
\<close>

definition createAndAddSource ::
  "World \<Rightarrow> string \<Rightarrow> string \<Rightarrow> string \<Rightarrow> World \<times> effect list \<times> string option" where
  "createAndAddSource w scene n t =
     (let newSource = uniqueId w (uidCount w);
          w1 = Sources_addSource (w\<lparr>uidCount := Suc (uidCount w)\<rparr>) newSource n t
      in addSource w1 scene newSource)"

text \<open>
  Modelled from the spec: \<^verbatim>\<open>Scene.removeItem\<close>, which is not among the source files.
  The spec, section 4.1: it "removes the node from its scene's list (and from its
  parent folder's child list if nested); the referenced Source is not deleted"; each
  removal emits an item-removed event; an unknown id changes nothing.
\<close>

definition nodeId :: "TSceneNode \<Rightarrow> string" where
  "nodeId n = (case n of Item it \<Rightarrow> sceneItemId it | Folder f \<Rightarrow> folderId f)"

definition dropChild :: "string \<Rightarrow> TSceneNode \<Rightarrow> TSceneNode" where
  "dropChild i n =
     (case n of Item it \<Rightarrow> Item it
      | Folder f \<Rightarrow> Folder (f\<lparr>childrenIds := removeAll i (childrenIds f)\<rparr>))"

definition removeItem :: "World \<Rightarrow> string \<Rightarrow> string \<Rightarrow> World \<times> effect list" where
  "removeItem w scene i =
     (case sceneModel w scene of
        None \<Rightarrow> (w, [])
      | Some sc \<Rightarrow>
          (case find (\<lambda>it. sceneItemId it = i) (itemsOf (nodes sc)) of
             None \<Rightarrow> (w, [])
           | Some it \<Rightarrow>
               (mutate (setNodes scene
                  (map (dropChild i) (filter (\<lambda>n. nodeId n \<noteq> i) (nodes sc)))) w,
                [ItemRemoved scene it])))"

fun removeItems :: "World \<Rightarrow> (string \<times> string) list \<Rightarrow> World \<times> effect list" where
  "removeItems w [] = (w, [])"
| "removeItems w (h # hs) =
     (let (w1, es1) = removeItem w (fst h) (snd h);
          (w2, es2) = removeItems w1 hs
      in (w2, es1 @ es2))"

text \<open>
  Modelled from the spec: \<^verbatim>\<open>SceneItem.setTransform\<close>, \<^verbatim>\<open>getSettings\<close> and
  \<^verbatim>\<open>setSettings\<close>, which are not among the source files. The spec, section 4.2:
  \<^verbatim>\<open>setTransform(patch)\<close> "merges provided fields; rotation is always stored
  post-normalization (value mod 360, mapped into [0,360)); each crop field is
  independently clamped to at least 0 and rounded to the nearest integer at write time;
  omitted fields are left unchanged"; a change of an item emits item-updated.
\<close>

record IPartialTransform =
  newPositionX :: "real option"
  newPositionY :: "real option"
  newScaleX :: "real option"
  newScaleY :: "real option"
  newRotation :: "real option"
  newCropTop :: "real option"
  newCropBottom :: "real option"
  newCropLeft :: "real option"
  newCropRight :: "real option"

definition normalizeRotation :: "real \<Rightarrow> real" where
  "normalizeRotation r = r - 360 * of_int \<lfloor>r / 360\<rfloor>"

definition normalizeCrop :: "real \<Rightarrow> real" where
  "normalizeCrop v = max 0 (of_int (round v))"

definition merge :: "'a \<Rightarrow> 'a option \<Rightarrow> ('a \<Rightarrow> 'a) \<Rightarrow> 'a" where
  "merge old new f = (case new of None \<Rightarrow> old | Some v \<Rightarrow> f v)"

definition mergeTransform :: "ITransform \<Rightarrow> IPartialTransform \<Rightarrow> ITransform" where
  "mergeTransform t p =
     \<lparr>positionX = merge (positionX t) (newPositionX p) (\<lambda>v. v),
      positionY = merge (positionY t) (newPositionY p) (\<lambda>v. v),
      scaleX = merge (scaleX t) (newScaleX p) (\<lambda>v. v),
      scaleY = merge (scaleY t) (newScaleY p) (\<lambda>v. v),
      rotation = merge (rotation t) (newRotation p) normalizeRotation,
      crop =
        \<lparr>cropTop = merge (cropTop (crop t)) (newCropTop p) normalizeCrop,
         cropBottom = merge (cropBottom (crop t)) (newCropBottom p) normalizeCrop,
         cropLeft = merge (cropLeft (crop t)) (newCropLeft p) normalizeCrop,
         cropRight = merge (cropRight (crop t)) (newCropRight p) normalizeCrop\<rparr>\<rparr>"

definition getItem :: "World \<Rightarrow> string \<Rightarrow> string \<Rightarrow> ISceneItem option" where
  "getItem w scene i = find (\<lambda>it. sceneItemId it = i) (getItems w scene)"

definition updateItem ::
  "World \<Rightarrow> string \<Rightarrow> string \<Rightarrow> (ISceneItem \<Rightarrow> ISceneItem) \<Rightarrow> World \<times> effect list" where
  "updateItem w scene i f =
     (case sceneModel w scene of
        None \<Rightarrow> (w, [])
      | Some sc \<Rightarrow>
          (case find (\<lambda>it. sceneItemId it = i) (itemsOf (nodes sc)) of
             None \<Rightarrow> (w, [])
           | Some it \<Rightarrow>
               (mutate (setNodes scene
                  (map (\<lambda>n. case n of
                               Item it' \<Rightarrow> if sceneItemId it' = i then Item (f it') else n
                             | Folder fo \<Rightarrow> n) (nodes sc))) w,
                [ItemUpdated scene (f it)])))"

definition setTransform ::
  "World \<Rightarrow> string \<Rightarrow> string \<Rightarrow> IPartialTransform \<Rightarrow> World \<times> effect list" where
  "setTransform w scene i p =
     updateItem w scene i (\<lambda>it. it\<lparr>transform := mergeTransform (transform it) p\<rparr>)"

record ISceneItemSettings =
  settingsTransform :: ITransform
  settingsVisible :: bool
  settingsLocked :: bool

definition getSettings :: "ISceneItem \<Rightarrow> ISceneItemSettings" where
  "getSettings it =
     \<lparr>settingsTransform = transform it, settingsVisible = visible it,
      settingsLocked = locked it\<rparr>"

definition wholeTransform :: "ITransform \<Rightarrow> IPartialTransform" where
  "wholeTransform t =
     \<lparr>newPositionX = Some (positionX t), newPositionY = Some (positionY t),
      newScaleX = Some (scaleX t), newScaleY = Some (scaleY t),
      newRotation = Some (rotation t),
      newCropTop = Some (cropTop (crop t)), newCropBottom = Some (cropBottom (crop t)),
      newCropLeft = Some (cropLeft (crop t)), newCropRight = Some (cropRight (crop t))\<rparr>"

definition applySettings :: "ISceneItemSettings \<Rightarrow> ISceneItem \<Rightarrow> ISceneItem" where
  "applySettings st it =
     it\<lparr>transform := mergeTransform (transform it) (wholeTransform (settingsTransform st)),
        visible := settingsVisible st, locked := settingsLocked st\<rparr>"

definition setSettings ::
  "World \<Rightarrow> string \<Rightarrow> string \<Rightarrow> ISceneItemSettings \<Rightarrow> World \<times> effect list" where
  "setSettings w scene i st = updateItem w scene i (applySettings st)"

subsection \<open>The operations of the service\<close>

text \<open>\<^verbatim>\<open>makeSceneActive\<close>; the call of the transitions service leaves the world as it is.\<close>

definition makeSceneActive :: "World \<Rightarrow> string \<Rightarrow> World \<times> effect list \<times> bool" where
  "makeSceneActive w i =
     (case sceneModel w i of
        None \<Rightarrow> (w, [], False)
      | Some model \<Rightarrow> (mutate (MAKE_SCENE_ACTIVE i) w, [SceneSwitched model], True))"

definition setSceneOrder :: "World \<Rightarrow> string list \<Rightarrow> World \<times> effect list" where
  "setSceneOrder w order = (mutate (SET_SCENE_ORDER order) w, [])"

text \<open>
  \<^verbatim>\<open>getSceneItems\<close>: the items of the scenes of the display order, each with the scene
  that lists it. An id of the display order with no scene gives \<^verbatim>\<open>null\<close> in
  \<^verbatim>\<open>this.scenes\<close>, and \<^verbatim>\<open>scene.getItems()\<close> throws there.
\<close>

definition getSceneItems :: "World \<Rightarrow> (string \<times> ISceneItem) list outcome" where
  "getSceneItems w =
     (if list_ex (\<lambda>h. h = None) (getScenes w) then TypeError
      else Returned (concat (map (\<lambda>i. map (Pair i) (getItems w i)) (displayOrder (state w)))))"

text \<open>
  The loop of \<^verbatim>\<open>createScene\<close> over the items of the old scene, as \<^verbatim>\<open>getItems\<close> has read
  them before the loop. \<^verbatim>\<open>addSource\<close> returns \<^verbatim>\<open>null\<close> when it refuses, and
  \<^verbatim>\<open>newItem.setSettings\<close> throws there. The loop adds to the new scene only, so the
  settings of an old item are the same during the loop as before it (when the old scene
  is the new scene itself, it has no items and the loop does not run).
\<close>

fun duplicateItems ::
  "World \<Rightarrow> string \<Rightarrow> ISceneItem list \<Rightarrow> World \<times> effect list \<times> unit outcome" where
  "duplicateItems w newScene [] = (w, [], Returned ())"
| "duplicateItems w newScene (item # items) =
     (let (w1, es1, newItem) = addSource w newScene (sourceId item)
      in case newItem of
           None \<Rightarrow> (w1, es1, TypeError)
         | Some newItemId \<Rightarrow>
             (let (w2, es2) = setSettings w1 newScene newItemId (getSettings item);
                  (w3, es3, r) = duplicateItems w2 newScene items
              in (w3, es1 @ es2 @ es3, r)))"

definition newSceneId :: "World \<Rightarrow> ISceneCreateOptions \<Rightarrow> string \<times> World" where
  "newSceneId w options =
     (case sceneId options of
        None \<Rightarrow> (''scene_'' @ uniqueId w (uidCount w), w\<lparr>uidCount := Suc (uidCount w)\<rparr>)
      | Some i \<Rightarrow>
          if i \<noteq> '''' then (i, w)
          else (''scene_'' @ uniqueId w (uidCount w), w\<lparr>uidCount := Suc (uidCount w)\<rparr>))"

text \<open>The block of \<^verbatim>\<open>createScene\<close> under \<^verbatim>\<open>if (options.duplicateSourcesFromScene)\<close>.\<close>

definition duplicateSources ::
  "World \<Rightarrow> string \<Rightarrow> ISceneCreateOptions \<Rightarrow> World \<times> effect list \<times> unit outcome" where
  "duplicateSources w i options =
     (case duplicateSourcesFromScene options of
        None \<Rightarrow> (w, [], Returned ())
      | Some old \<Rightarrow>
          if old = '''' then (w, [], Returned ())
          else (case getSceneByName w old of
                  None \<Rightarrow> (w, [], TypeError)
                | Some oldScene \<Rightarrow> duplicateItems w i (rev (getItems w oldScene))))"

definition createScene ::
  "World \<Rightarrow> string \<Rightarrow> ISceneCreateOptions \<Rightarrow> World \<times> effect list \<times> string option outcome" where
  "createScene w n options =
     (let (i, w0) = newSceneId w options;
          w1 = mutate (ADD_SCENE i n) w0;
          w2 = Sources_addSource w1 i n ''scene'';
          (w3, es3, r) = duplicateSources w2 i options
      in case r of
           TypeError \<Rightarrow> (w3, es3, TypeError)
         | Returned u \<Rightarrow>
             (let added = (case sceneModel w3 i of None \<Rightarrow> [] | Some model \<Rightarrow> [SceneAdded model]);
                  (w4, es4) =
                    (if makeActive options
                     then (let (w', es', b) = makeSceneActive w3 i in (w', es'))
                     else (w3, []))
              in (w4, es3 @ added @ es4, Returned (getSceneByName w4 n))))"

text \<open>
  \<^verbatim>\<open>removeScene\<close>. \<^verbatim>\<open>sceneModel\<close> is a reference to the object of the scene in the
  state: the event and the result carry the object as it is when the scene is deleted.
\<close>

definition removeScene ::
  "World \<Rightarrow> string \<Rightarrow> bool \<Rightarrow> World \<times> effect list \<times> IScene option outcome" where
  "removeScene w i force =
     (if \<not> force \<and> length (map fst (scenes (state w))) < 2
      then (w, [Alert ''There needs to be at least one scene.''], Returned None)
      else
        (case sceneModel w i of
           None \<Rightarrow> (w, [], TypeError)
         | Some model0 \<Rightarrow>
             (let (w1, es1) = removeItems w (map (\<lambda>it. (i, sceneItemId it)) (getItems w i))
              in case getSceneItems w1 of
                   TypeError \<Rightarrow> (w1, es1, TypeError)
                 | Returned sceneItems \<Rightarrow>
                     (let (w2, es2) =
                            removeItems w1
                              (map (\<lambda>h. (fst h, sceneItemId (snd h)))
                                 (filter (\<lambda>h. sourceId (snd h) = i) sceneItems));
                          model = (case sceneModel w2 i of None \<Rightarrow> model0 | Some m \<Rightarrow> m);
                          w3 = mutate (REMOVE_SCENE i) w2;
                          (w4, es4) =
                            (if activeSceneId (state w3) = i
                             then (case map fst (scenes (state w3)) of
                                     [] \<Rightarrow> (w3, [])
                                   | k # ks \<Rightarrow>
                                       if k \<noteq> ''''
                                       then (let (w', es', b) = makeSceneActive w3 k in (w', es'))
                                       else (w3, []))
                             else (w3, []))
                      in (w4, es1 @ es2 @ es4 @ [SceneRemoved model], Returned (Some model))))))"

subsection \<open>Notions of the specification\<close>

text \<open>
  The relation "a node of scene \<open>a\<close> references the nested scene \<open>b\<close>" (spec, section 8)
  and a sequence of \<^verbatim>\<open>addSource\<close> calls, each a scene and a source.
\<close>

definition nestedIn :: "World \<Rightarrow> (string \<times> string) set" where
  "nestedIn w = {(a, b). b \<in> set (nestedSceneIds w a)}"

fun addSources :: "World \<Rightarrow> (string \<times> string) list \<Rightarrow> World" where
  "addSources w [] = w"
| "addSources w (c # cs) = addSources (fst (addSource w (fst c) (snd c))) cs"

text \<open>
  The remainder operator \<^verbatim>\<open>%\<close> of the formula of section 8, on real numbers: the
  quotient is truncated towards zero and the result has the sign of the dividend.
\<close>

definition jsRem :: "real \<Rightarrow> real \<Rightarrow> real" where
  "jsRem a b = a - b * of_int (if 0 \<le> a / b then \<lfloor>a / b\<rfloor> else \<lceil>a / b\<rceil>)"

definition rotationPatch :: "real \<Rightarrow> IPartialTransform" where
  "rotationPatch r =
     \<lparr>newPositionX = None, newPositionY = None, newScaleX = None, newScaleY = None,
      newRotation = Some r,
      newCropTop = None, newCropBottom = None, newCropLeft = None, newCropRight = None\<rparr>"

definition cropPatch :: "real \<Rightarrow> real \<Rightarrow> real \<Rightarrow> real \<Rightarrow> IPartialTransform" where
  "cropPatch t b l r =
     \<lparr>newPositionX = None, newPositionY = None, newScaleX = None, newScaleY = None,
      newRotation = None,
      newCropTop = Some t, newCropBottom = Some b, newCropLeft = Some l, newCropRight = Some r\<rparr>"

text \<open>The names of the items of a scene as the tests read them: the names of their sources.\<close>

definition itemNames :: "World \<Rightarrow> string \<Rightarrow> string list" where
  "itemNames w scene =
     map (\<lambda>it. case map_of (sources w) (sourceId it) of None \<Rightarrow> '''' | Some s \<Rightarrow> srcName s)
       (getItems w scene)"

text \<open>
  Well-formed states: the display order lists every scene once, a scene is filed under
  its id, no id is empty, and the items of a scene have different ids. The state of a new
  service is well formed, and so is the state after \<^verbatim>\<open>createScene\<close> with a new id;
  \<^verbatim>\<open>setSceneOrder\<close> with a list that is not a permutation of the scene ids leaves the
  well-formed states.
\<close>

definition sceneIds :: "World \<Rightarrow> string list" where
  "sceneIds w = map fst (scenes (state w))"

definition wellFormed :: "World \<Rightarrow> bool" where
  "wellFormed w =
     (distinct (sceneIds w) \<and> distinct (displayOrder (state w))
      \<and> set (displayOrder (state w)) = set (sceneIds w)
      \<and> '''' \<notin> set (sceneIds w)
      \<and> list_all (\<lambda>e. id' (snd e) = fst e) (scenes (state w))
      \<and> list_all (\<lambda>e. distinct (map sceneItemId (itemsOf (nodes (snd e))))) (scenes (state w)))"

text \<open>The items of all scenes as \<^verbatim>\<open>getSceneItems\<close> lists them, each with its scene.\<close>

definition allItems :: "World \<Rightarrow> (string \<times> ISceneItem) list" where
  "allItems w = concat (map (\<lambda>i. map (Pair i) (getItems w i)) (displayOrder (state w)))"

definition isSceneRemoved :: "effect \<Rightarrow> bool" where
  "isSceneRemoved e = (case e of SceneRemoved m \<Rightarrow> True | _ \<Rightarrow> False)"

definition isSceneSwitched :: "effect \<Rightarrow> bool" where
  "isSceneSwitched e = (case e of SceneSwitched m \<Rightarrow> True | _ \<Rightarrow> False)"

definition isSceneAdded :: "effect \<Rightarrow> bool" where
  "isSceneAdded e = (case e of SceneAdded m \<Rightarrow> True | _ \<Rightarrow> False)"

definition noOptions :: ISceneCreateOptions where
  "noOptions = \<lparr>duplicateSourcesFromScene = None, sceneId = None, makeActive = False\<rparr>"

subsection \<open>Example worlds\<close>

definition sceneRecord :: "string \<Rightarrow> string \<Rightarrow> TSceneNode list \<Rightarrow> string \<times> IScene" where
  "sceneRecord i n ns =
     (i, \<lparr>id' = i, name = n, resourceId = ''Scene['' @ jsonString i @ '']'', nodes = ns\<rparr>)"

definition sceneSource :: "string \<Rightarrow> string \<Rightarrow> string \<times> ISource" where
  "sceneSource i n = (i, \<lparr>srcId = i, srcName = n, srcType = ''scene''\<rparr>)"

definition plainItem :: "string \<Rightarrow> string \<Rightarrow> ISceneItem" where
  "plainItem i source =
     \<lparr>sceneItemId = i, sourceId = source, transform = defaultTransform,
      visible = True, locked = False, parentId = None\<rparr>"

definition idSequence :: "nat \<Rightarrow> string" where
  "idSequence n = replicate (Suc n) (CHR ''i'')"

text \<open>No scene yet: the state of a new service.\<close>

definition emptyWorld :: World where
  "emptyWorld = \<lparr>state = initialState, sources = [], uniqueId = idSequence, uidCount = 0\<rparr>"

text \<open>The default scene alone, as the tests find it.\<close>

definition soloWorld :: World where
  "soloWorld =
     \<lparr>state = \<lparr>activeSceneId = ''scene_1'', displayOrder = [''scene_1''],
                scenes = [sceneRecord ''scene_1'' ''Scene'' []]\<rparr>,
      sources = [sceneSource ''scene_1'' ''Scene''],
      uniqueId = idSequence, uidCount = 0\<rparr>"

text \<open>
  The scenes of the test "Creating nested scenes" before its last call: A embeds B and
  C embeds A.
\<close>

definition nestedWorld :: World where
  "nestedWorld =
     \<lparr>state = \<lparr>activeSceneId = ''A'', displayOrder = [''A'', ''B'', ''C''],
                scenes = [sceneRecord ''A'' ''SceneA'' [Item (plainItem ''a1'' ''B'')],
                          sceneRecord ''B'' ''SceneB'' [],
                          sceneRecord ''C'' ''SceneC'' [Item (plainItem ''c1'' ''A'')]]\<rparr>,
      sources = [sceneSource ''A'' ''SceneA'', sceneSource ''B'' ''SceneB'',
                 sceneSource ''C'' ''SceneC''],
      uniqueId = idSequence, uidCount = 0\<rparr>"

text \<open>A scene with two images, and a second scene that embeds it and shows one image.\<close>

definition studioWorld :: World where
  "studioWorld =
     \<lparr>state = \<lparr>activeSceneId = ''S1'', displayOrder = [''S1'', ''S2''],
                scenes = [sceneRecord ''S1'' ''Scene''
                            [Item (plainItem ''n2'' ''img2''), Item (plainItem ''n1'' ''img1'')],
                          sceneRecord ''S2'' ''Wide''
                            [Item (plainItem ''n4'' ''S1''), Item (plainItem ''n3'' ''img1'')]]\<rparr>,
      sources = [sceneSource ''S1'' ''Scene'',
                 (''img1'', \<lparr>srcId = ''img1'', srcName = ''Image1'', srcType = ''image_source''\<rparr>),
                 (''img2'', \<lparr>srcId = ''img2'', srcName = ''Image2'', srcType = ''image_source''\<rparr>),
                 sceneSource ''S2'' ''Wide''],
      uniqueId = idSequence, uidCount = 0\<rparr>"

subsection \<open>Frames, options and further notions\<close>

text \<open>
  What the operations on the items of a scene leave alone, and the effects they have.
\<close>

definition sameFrame :: "World \<Rightarrow> World \<Rightarrow> bool" where
  "sameFrame w w' =
     (activeSceneId (state w') = activeSceneId (state w)
      \<and> displayOrder (state w') = displayOrder (state w)
      \<and> sceneIds w' = sceneIds w
      \<and> sources w' = sources w
      \<and> uniqueId w' = uniqueId w)"

definition isItemEffect :: "effect \<Rightarrow> bool" where
  "isItemEffect e =
     (case e of ItemAdded s it \<Rightarrow> True | ItemRemoved s it \<Rightarrow> True | ItemUpdated s it \<Rightarrow> True
      | _ \<Rightarrow> False)"

text \<open>
  The world of \<^verbatim>\<open>createScene\<close> after its first four lines: the id is chosen, the scene
  is added and registered as a source.
\<close>

definition registered :: "World \<Rightarrow> string \<Rightarrow> ISceneCreateOptions \<Rightarrow> World" where
  "registered w n options =
     Sources_addSource
       (mutate (ADD_SCENE (fst (newSceneId w options)) n) (snd (newSceneId w options)))
       (fst (newSceneId w options)) n ''scene''"

definition emptyScene :: "string \<Rightarrow> string \<Rightarrow> IScene" where
  "emptyScene i n = \<lparr>id' = i, name = n, resourceId = ''Scene['' @ jsonString i @ '']'', nodes = []\<rparr>"

definition activeOptions :: ISceneCreateOptions where
  "activeOptions = \<lparr>duplicateSourcesFromScene = None, sceneId = None, makeActive = True\<rparr>"

text \<open>The three scenes of the test "Creating nested scenes" before any of them is nested.\<close>

definition threeScenes :: World where
  "threeScenes =
     \<lparr>state = \<lparr>activeSceneId = ''A'', displayOrder = [''A'', ''B'', ''C''],
                scenes = [sceneRecord ''A'' ''SceneA'' [], sceneRecord ''B'' ''SceneB'' [],
                          sceneRecord ''C'' ''SceneC'' []]\<rparr>,
      sources = [sceneSource ''A'' ''SceneA'', sceneSource ''B'' ''SceneB'',
                 sceneSource ''C'' ''SceneC''],
      uniqueId = idSequence, uidCount = 0\<rparr>"

text \<open>
  The item-removed events of \<^verbatim>\<open>removeScene\<close> for the items of other scenes that show
  the removed scene, in the order of \<^verbatim>\<open>getSceneItems\<close>.
\<close>

definition nestedRemovals :: "World \<Rightarrow> string \<Rightarrow> effect list" where
  "nestedRemovals w i =
     map (\<lambda>h. ItemRemoved (fst h) (snd h))
       (filter (\<lambda>h. fst h \<noteq> i \<and> sourceId (snd h) = i) (allItems w))"

text \<open>
  No item of any scene has the source \<open>i\<close>; and the settings of an item as
  \<^verbatim>\<open>setSettings\<close> stores them on a new item.
\<close>

definition unreferenced :: "World \<Rightarrow> string \<Rightarrow> bool" where
  "unreferenced w i =
     list_all (\<lambda>e. list_all (\<lambda>it. sourceId it \<noteq> i) (itemsOf (nodes (snd e))))
       (scenes (state w))"

definition storedSettings :: "ISceneItemSettings \<Rightarrow> ISceneItemSettings" where
  "storedSettings st =
     st\<lparr>settingsTransform :=
          mergeTransform defaultTransform (wholeTransform (settingsTransform st))\<rparr>"

definition duplicateOptions :: "string \<Rightarrow> ISceneCreateOptions" where
  "duplicateOptions old =
     \<lparr>duplicateSourcesFromScene = Some old, sceneId = None, makeActive = False\<rparr>"



definition strayOrderWorld :: World where
  "strayOrderWorld = fst (setSceneOrder studioWorld [''nope'', ''S2''])"

section \<open>Properties\<close>

subsection \<open>Scene order and the last scene\<close>

text \<open>
  C3, as amended. \<^verbatim>\<open>setSceneOrder(ids)\<close> replaces the stored display order by \<open>ids\<close>
  whatever \<open>ids\<close> is, a permutation of the scene ids or not; nothing else of the state
  changes and no event is emitted.
\<close>

theorem setSceneOrder_replaces:
  "setSceneOrder w ids = (w\<lparr>state := (state w)\<lparr>displayOrder := ids\<rparr>\<rparr>, [])"
  by (simp add: setSceneOrder_def mutate_def SET_SCENE_ORDER_def)

text \<open>
  C3, as stated, fails: with the one scene \<open>scene_1\<close>, the empty list is not a permutation
  of the scene ids, and \<^verbatim>\<open>setSceneOrder([])\<close> stores it.
\<close>

theorem setSceneOrder_counterexample:
  "sceneIds soloWorld = [''scene_1'']
   \<and> displayOrder (state soloWorld) = [''scene_1'']
   \<and> displayOrder (state (fst (setSceneOrder soloWorld []))) = []"
  by (simp add: setSceneOrder_def mutate_def SET_SCENE_ORDER_def soloWorld_def sceneIds_def
      sceneRecord_def)

text \<open>
  C2. With exactly one scene, \<^verbatim>\<open>removeScene(id)\<close> without force changes nothing: the
  world after the call is the world before it (one scene, its nodes as they were), no
  scene-removed event is among the effects, and the call returns no scene.
\<close>

theorem removeScene_last_scene_refused:
  assumes "length (sceneIds w) = 1"
  shows "fst (removeScene w i False) = w
    \<and> length (sceneIds (fst (removeScene w i False))) = 1
    \<and> list_all (\<lambda>e. \<not> isSceneRemoved e) (fst (snd (removeScene w i False)))
    \<and> snd (snd (removeScene w i False)) = Returned None"
  using assms by (simp add: removeScene_def sceneIds_def isSceneRemoved_def)

theorem removeScene_last_scene_refused_witness:
  "length (sceneIds soloWorld) = 1
   \<and> fst (removeScene soloWorld ''scene_1'' False) = soloWorld
   \<and> snd (snd (removeScene soloWorld ''scene_1'' False)) = Returned None"
proof -
  have one: "length (sceneIds soloWorld) = 1"
    by (simp add: sceneIds_def soloWorld_def)
  from removeScene_last_scene_refused [OF one, of "''scene_1''"] one show ?thesis
    by simp
qed

subsection \<open>Reading and writing the nodes of a scene\<close>

lemma map_of_setNodes:
  "map_of (map (\<lambda>e. if fst e = k then (fst e, (snd e)\<lparr>nodes := ns\<rparr>) else e) d) a =
     (if a = k then map_option (\<lambda>sc. sc\<lparr>nodes := ns\<rparr>) (map_of d a) else map_of d a)"
  by (induction d) auto

lemma sceneModel_setNodes:
  "sceneModel (mutate (setNodes k ns) w) a =
     (if a = k then map_option (\<lambda>sc. sc\<lparr>nodes := ns\<rparr>) (sceneModel w a) else sceneModel w a)"
  by (simp add: sceneModel_def mutate_def setNodes_def map_of_setNodes)

lemma getItems_setNodes:
  "getItems (mutate (setNodes k ns) w) a =
     (if a = k \<and> sceneModel w k \<noteq> None then itemsOf ns else getItems w a)"
  by (auto simp: getItems_def sceneModel_setNodes split: option.splits)

lemma itemsOf_simps [simp]:
  "itemsOf [] = []"
  "itemsOf (Item it # ns) = it # itemsOf ns"
  "itemsOf (Folder f # ns) = itemsOf ns"
  by (simp_all add: itemsOf_def)

lemma itemsOf_update:
  "itemsOf (map (\<lambda>n. case n of Item it' \<Rightarrow> if sceneItemId it' = i then Item (f it') else n
                             | Folder fo \<Rightarrow> n) ns) =
   map (\<lambda>it. if sceneItemId it = i then f it else it) (itemsOf ns)"
  by (induction ns) (auto split: TSceneNode.splits)

lemma find_update:
  assumes "\<And>it. sceneItemId (f it) = sceneItemId it"
  shows "find (\<lambda>it. sceneItemId it = i) (map (\<lambda>it. if sceneItemId it = i then f it else it) xs)
     = map_option f (find (\<lambda>it. sceneItemId it = i) xs)"
  using assms by (induction xs) auto

lemma getItem_updateItem:
  assumes "\<And>it. sceneItemId (f it) = sceneItemId it"
  shows "getItem (fst (updateItem w scene i f)) scene i = map_option f (getItem w scene i)"
  using assms
  by (auto simp: getItem_def updateItem_def getItems_def sceneModel_setNodes itemsOf_update
      find_update split: option.splits)

lemma getItem_setTransform:
  "getItem (fst (setTransform w scene i p)) scene i =
     map_option (\<lambda>it. it\<lparr>transform := mergeTransform (transform it) p\<rparr>) (getItem w scene i)"
  unfolding setTransform_def by (rule getItem_updateItem) simp

subsection \<open>Rotation and crop\<close>

lemma normalizeRotation_bounds:
  "0 \<le> normalizeRotation r" "normalizeRotation r < 360"
proof -
  have "of_int \<lfloor>r / 360\<rfloor> \<le> r / 360" "r / 360 < of_int \<lfloor>r / 360\<rfloor> + 1"
    by linarith+
  then show "0 \<le> normalizeRotation r" "normalizeRotation r < 360"
    by (simp_all add: normalizeRotation_def field_simps)
qed

lemma jsRem_of_small:
  assumes "0 \<le> x" "x < 360"
  shows "jsRem (x + 360) 360 = x"
proof -
  have "\<lfloor>(x + 360) / 360\<rfloor> = 1"
    using assms by (intro floor_unique) (simp_all add: field_simps)
  moreover have "0 \<le> (x + 360) / 360"
    using assms by simp
  ultimately show ?thesis
    by (simp add: jsRem_def)
qed

lemma jsRem_of_small_negative:
  assumes "- 360 < x" "x < 0"
  shows "jsRem (x + 360) 360 = x + 360"
proof -
  have "\<lfloor>(x + 360) / 360\<rfloor> = 0"
    using assms by (intro floor_unique) (simp_all add: field_simps)
  moreover have "0 \<le> (x + 360) / 360"
    using assms by simp
  ultimately show ?thesis
    by (simp add: jsRem_def)
qed

text \<open>
  The formula of section 8 and the normalisation of section 4.2 agree: adding 360 to the
  truncated remainder and taking the remainder again is the remainder of the floored
  division.
\<close>

lemma jsRem_normalize: "jsRem (jsRem r 360 + 360) 360 = normalizeRotation r"
proof (cases "0 \<le> r")
  case True
  then have "jsRem r 360 = normalizeRotation r"
    by (simp add: jsRem_def normalizeRotation_def)
  then show ?thesis
    using jsRem_of_small [of "normalizeRotation r"] normalizeRotation_bounds [of r] by simp
next
  case False
  then have neg: "\<not> 0 \<le> r / 360" by simp
  show ?thesis
  proof (cases "of_int \<lfloor>r / 360\<rfloor> = r / 360")
    case True
    then have "\<lceil>r / 360\<rceil> = \<lfloor>r / 360\<rfloor>"
      by (metis ceiling_of_int)
    with True neg have "jsRem r 360 = 0" "normalizeRotation r = 0"
      by (simp_all add: jsRem_def normalizeRotation_def)
    then show ?thesis
      using jsRem_of_small [of 0] by simp
  next
    case False
    then have c: "\<lceil>r / 360\<rceil> = \<lfloor>r / 360\<rfloor> + 1"
      by (simp add: ceiling_altdef)
    with neg have eq: "jsRem r 360 = normalizeRotation r - 360"
      by (simp add: jsRem_def normalizeRotation_def algebra_simps)
    have "normalizeRotation r \<noteq> 0"
      using False by (simp add: normalizeRotation_def)
    with normalizeRotation_bounds [of r] have "- 360 < jsRem r 360" "jsRem r 360 < 0"
      unfolding eq by simp_all
    from jsRem_of_small_negative [OF this] show ?thesis
      by (simp add: eq)
  qed
qed

lemma normalizeCrop_idem: "normalizeCrop (normalizeCrop v) = normalizeCrop v"
proof -
  have "normalizeCrop v = of_int (max 0 (round v))"
    by (simp add: normalizeCrop_def max_def)
  moreover have "normalizeCrop (of_int (max 0 (round v))) = of_int (max 0 (round v))"
    by (simp add: normalizeCrop_def max_def)
  ultimately show ?thesis by simp
qed

lemma normalizeCrop_nearest: "\<bar>normalizeCrop v - max 0 v\<bar> \<le> 1 / 2"
proof -
  have "\<bar>of_int (round v) - v\<bar> \<le> 1 / 2"
    by (rule of_int_round_abs_le)
  then show ?thesis
    by (auto simp: normalizeCrop_def max_def abs_if split: if_splits)
qed

text \<open>
  C7. For every real \<open>r\<close>, \<^verbatim>\<open>setTransform({rotation: r})\<close> on an item of a scene followed
  by reading the item yields the rotation \<^verbatim>\<open>((r % 360) + 360) % 360\<close>, which lies in
  \<open>[0, 360)\<close>.
\<close>

theorem setTransform_rotation_normalized:
  assumes "getItem w scene i = Some it"
  shows "\<exists>it'. getItem (fst (setTransform w scene i (rotationPatch r))) scene i = Some it'
    \<and> rotation (transform it') = jsRem (jsRem r 360 + 360) 360
    \<and> 0 \<le> rotation (transform it') \<and> rotation (transform it') < 360"
  using assms normalizeRotation_bounds [of r]
  by (simp add: getItem_setTransform mergeTransform_def merge_def rotationPatch_def
      jsRem_normalize)

lemma getItem_studioWorld:
  "getItem studioWorld ''S1'' ''n1'' = Some (plainItem ''n1'' ''img1'')"
  by (simp add: getItem_def getItems_def sceneModel_def studioWorld_def sceneRecord_def
      plainItem_def)

text \<open>The two examples of the claim: 450 reads back as 90 and -10 as 350.\<close>

theorem setTransform_rotation_normalized_witness:
  "getItem studioWorld ''S1'' ''n1'' = Some (plainItem ''n1'' ''img1'')
   \<and> map_option (\<lambda>it. rotation (transform it))
        (getItem (fst (setTransform studioWorld ''S1'' ''n1'' (rotationPatch 450))) ''S1'' ''n1'')
      = Some 90
   \<and> map_option (\<lambda>it. rotation (transform it))
        (getItem (fst (setTransform studioWorld ''S1'' ''n1'' (rotationPatch (- 10)))) ''S1'' ''n1'')
      = Some 350"
proof -
  have a: "jsRem (jsRem 450 360 + 360) 360 = 90"
    by (simp add: jsRem_def)
  have b: "jsRem (jsRem (- 10) 360 + 360) 360 = 350"
    by (simp add: jsRem_def ceiling_def)
  from setTransform_rotation_normalized [OF getItem_studioWorld, of 450]
    setTransform_rotation_normalized [OF getItem_studioWorld, of "- 10"]
    getItem_studioWorld a b
  show ?thesis by auto
qed

text \<open>
  C8. Each crop field passed to \<^verbatim>\<open>setTransform\<close> is clamped to at least 0 and rounded to
  the nearest integer when it is written, each field from its own value alone; what is
  read afterwards is the stored value, and writing the stored values again changes
  nothing.
\<close>

theorem setTransform_crop_rounded:
  assumes "getItem w scene i = Some it"
  shows "\<exists>it'. getItem (fst (setTransform w scene i (cropPatch t b l r))) scene i = Some it'
    \<and> crop (transform it') =
        \<lparr>cropTop = max 0 (of_int (round t)), cropBottom = max 0 (of_int (round b)),
         cropLeft = max 0 (of_int (round l)), cropRight = max 0 (of_int (round r))\<rparr>
    \<and> crop (mergeTransform (transform it')
         (cropPatch (cropTop (crop (transform it'))) (cropBottom (crop (transform it')))
            (cropLeft (crop (transform it'))) (cropRight (crop (transform it')))))
       = crop (transform it')"
  using assms normalizeCrop_idem [of t] normalizeCrop_idem [of b]
    normalizeCrop_idem [of l] normalizeCrop_idem [of r]
  by (simp add: getItem_setTransform mergeTransform_def merge_def cropPatch_def
      normalizeCrop_def)

text \<open>The example of the claim: 1.2, 5.6, 7.1 and 10 are stored as 1, 6, 7 and 10.\<close>

theorem setTransform_crop_rounded_witness:
  "getItem studioWorld ''S1'' ''n1'' = Some (plainItem ''n1'' ''img1'')
   \<and> map_option (\<lambda>it. crop (transform it))
        (getItem (fst (setTransform studioWorld ''S1'' ''n1'' (cropPatch 1.2 5.6 7.1 10)))
           ''S1'' ''n1'')
      = Some \<lparr>cropTop = 1, cropBottom = 6, cropLeft = 7, cropRight = 10\<rparr>"
proof -
  from setTransform_crop_rounded [OF getItem_studioWorld, of "1.2" "5.6" "7.1" 10]
    getItem_studioWorld
  show ?thesis by (auto simp: round_def)
qed

subsection \<open>Dictionaries and the lookup of a scene by name\<close>

lemma map_of_insertIndexKey:
  "k \<notin> fst ` set d \<Longrightarrow> map_of (insertIndexKey k v d) = (map_of d)(k \<mapsto> v)"
  by (induction d) (auto simp: fun_upd_twist)

lemma map_of_objSet: "map_of (objSet d k v) = (map_of d)(k \<mapsto> v)"
  by (simp add: objSet_def map_of_insertIndexKey update_conv')

lemma keys_insertIndexKey:
  "set (map fst (insertIndexKey k v d)) = insert k (set (map fst d))"
  by (induction d) auto

lemma keys_objSet: "fst ` set (objSet d k v) = insert k (fst ` set d)"
proof -
  have "fst ` set (objSet d k v) = dom (map_of (objSet d k v))"
    by (simp add: dom_map_of_conv_image_fst)
  also have "\<dots> = insert k (dom (map_of d))"
    by (simp add: map_of_objSet)
  finally show ?thesis
    by (simp add: dom_map_of_conv_image_fst)
qed

lemma distinct_insertIndexKey:
  "k \<notin> fst ` set d \<Longrightarrow> distinct (map fst d) \<Longrightarrow> distinct (map fst (insertIndexKey k v d))"
proof (induction d)
  case Nil
  then show ?case by simp
next
  case (Cons e d)
  have "set (map fst (insertIndexKey k v d)) = insert k (set (map fst d))"
    by (rule keys_insertIndexKey)
  with Cons show ?case by auto
qed

lemma distinct_objSet:
  "distinct (map fst d) \<Longrightarrow> distinct (map fst (objSet d k v))"
  by (simp add: objSet_def distinct_insertIndexKey distinct_update)

lemma set_insertIndexKey: "set (insertIndexKey k v d) = insert (k, v) (set d)"
  by (induction d) auto

lemma set_objSet_new:
  "k \<notin> fst ` set d \<Longrightarrow> set (objSet d k v) = insert (k, v) (set d)"
proof -
  assume a: "k \<notin> fst ` set d"
  then have "AList.update k v d = d @ [(k, v)]"
    by (induction d) auto
  with a show ?thesis
    by (auto simp: objSet_def set_insertIndexKey)
qed

lemma length_insertIndexKey: "length (insertIndexKey k v d) = Suc (length d)"
  by (induction d) auto

lemma foldl_found:
  "foldl (\<lambda>found e. if name (snd e) = n then Some (snd e) else found) acc d =
     (if filter (\<lambda>e. name (snd e) = n) d = [] then acc
      else Some (snd (last (filter (\<lambda>e. name (snd e) = n) d))))"
  by (induction d arbitrary: acc) auto

lemma getSceneByName_found:
  assumes "list_all (\<lambda>e. id' (snd e) = fst e) (scenes (state w))"
    and "(k, sc) \<in> set (scenes (state w))" and "name sc = n"
  shows "\<exists>k'. getSceneByName w n = Some k'"
proof -
  let ?m = "filter (\<lambda>e. name (snd e) = n) (scenes (state w))"
  from assms(2,3) have ne: "?m \<noteq> []"
    by (force simp: filter_empty_conv)
  have "last ?m \<in> set ?m"
    using ne by (rule last_in_set)
  then have mem: "last ?m \<in> set (scenes (state w))"
    by auto
  with assms(1) have "id' (snd (last ?m)) = fst (last ?m)"
    by (auto simp: list_all_iff)
  moreover from mem have "map_of (scenes (state w)) (fst (last ?m)) \<noteq> None"
    by (metis domIff fst_conv image_eqI dom_map_of_conv_image_fst)
  ultimately show ?thesis
    using ne by (auto simp: getSceneByName_def foldl_found getScene_def sceneModel_def
        split: option.splits)
qed

subsection \<open>What the item operations leave alone\<close>

lemma sameFrame_refl [simp]: "sameFrame w w"
  by (simp add: sameFrame_def)

lemma sameFrame_trans: "sameFrame a b \<Longrightarrow> sameFrame b c \<Longrightarrow> sameFrame a c"
  by (simp add: sameFrame_def)

lemma sameFrame_setNodes [simp]: "sameFrame w (mutate (setNodes k ns) w)"
  by (simp add: sameFrame_def mutate_def setNodes_def sceneIds_def comp_def if_distrib
      cong: if_cong)

lemma sameFrame_uidCount [simp]: "sameFrame w (w\<lparr>uidCount := c\<rparr>)"
  by (simp add: sameFrame_def sceneIds_def)

lemma sameFrame_sceneModel_None:
  "sameFrame w w' \<Longrightarrow> sceneModel w' a = None \<longleftrightarrow> sceneModel w a = None"
proof -
  assume "sameFrame w w'"
  then have "map fst (scenes (state w')) = map fst (scenes (state w))"
    by (simp add: sameFrame_def sceneIds_def)
  then have "fst ` set (scenes (state w')) = fst ` set (scenes (state w))"
    by (metis set_map)
  then show ?thesis
    by (simp add: sceneModel_def map_of_eq_None_iff)
qed

lemma addSource_refused:
  "\<not> canAddSource w scene source \<Longrightarrow> addSource w scene source = (w, [], None)"
  by (simp add: addSource_def split: option.splits)

lemma addSource_accepted:
  assumes "sceneModel w scene = Some sc" "canAddSource w scene source"
  shows "addSource w scene source =
    (mutate (setNodes scene (Item (plainItem (uniqueId w (uidCount w)) source) # nodes sc))
       (w\<lparr>uidCount := Suc (uidCount w)\<rparr>),
     [ItemAdded scene (plainItem (uniqueId w (uidCount w)) source)],
     Some (uniqueId w (uidCount w)))"
  using assms by (simp add: addSource_def plainItem_def Let_def)

lemma sceneModel_uidCount [simp]: "sceneModel (w\<lparr>uidCount := c\<rparr>) a = sceneModel w a"
  by (simp add: sceneModel_def)

lemma getItems_uidCount [simp]: "getItems (w\<lparr>uidCount := c\<rparr>) a = getItems w a"
  by (simp add: getItems_def)

lemma getItems_addSource:
  assumes "sceneModel w scene = Some sc" "canAddSource w scene source"
  shows "getItems (fst (addSource w scene source)) a =
    (if a = scene then plainItem (uniqueId w (uidCount w)) source # getItems w scene
     else getItems w a)"
  using assms by (simp add: addSource_accepted getItems_setNodes) (simp add: getItems_def)

lemma sameFrame_addSource: "sameFrame w (fst (addSource w scene source))"
proof (cases "sceneModel w scene")
  case None
  then show ?thesis by (simp add: addSource_def)
next
  case (Some sc)
  show ?thesis
  proof (cases "canAddSource w scene source")
    case True
    have "sameFrame (w\<lparr>uidCount := Suc (uidCount w)\<rparr>)
        (mutate (setNodes scene (Item (plainItem (uniqueId w (uidCount w)) source) # nodes sc))
           (w\<lparr>uidCount := Suc (uidCount w)\<rparr>))"
      by (rule sameFrame_setNodes)
    with sameFrame_uidCount show ?thesis
      unfolding addSource_accepted [OF Some True] fst_conv by (rule sameFrame_trans)
  next
    case False
    then show ?thesis by (simp add: addSource_refused)
  qed
qed

lemma effects_addSource: "list_all isItemEffect (fst (snd (addSource w scene source)))"
  by (simp add: addSource_def isItemEffect_def Let_def split: option.splits)

lemma sameFrame_updateItem: "sameFrame w (fst (updateItem w scene i f))"
  by (simp add: updateItem_def split: option.splits)

lemma effects_updateItem: "list_all isItemEffect (snd (updateItem w scene i f))"
  by (simp add: updateItem_def isItemEffect_def split: option.splits)


lemma effects_removeItem: "list_all isItemEffect (snd (removeItem w scene i))"
  by (simp add: removeItem_def isItemEffect_def split: option.splits)

lemma sameFrame_Sources_addSource_scenes [simp]:
  "state (Sources_addSource w i n t) = state w"
  "uniqueId (Sources_addSource w i n t) = uniqueId w"
  "uidCount (Sources_addSource w i n t) = uidCount w"
  "sceneModel (Sources_addSource w i n t) a = sceneModel w a"
  "getItems (Sources_addSource w i n t) a = getItems w a"
  by (simp_all add: Sources_addSource_def sceneModel_def getItems_def)

lemma source_of_Sources_addSource:
  "map_of (sources (Sources_addSource w i n t)) a =
     (if a = i then Some \<lparr>srcId = i, srcName = n, srcType = t\<rparr> else map_of (sources w) a)"
  by (simp add: Sources_addSource_def map_of_objSet)

subsection \<open>The order of the items of a scene\<close>

lemma canAddSource_plain:
  "map_of (sources w) source = Some s \<Longrightarrow> srcType s \<noteq> ''scene'' \<Longrightarrow> canAddSource w scene source"
  by (simp add: canAddSource_def)

lemma createAndAddSource_plain:
  assumes "sceneModel w scene = Some sc" "t \<noteq> ''scene''"
  shows "getItems (fst (createAndAddSource w scene n t)) scene =
      plainItem (uniqueId w (Suc (uidCount w))) (uniqueId w (uidCount w)) # getItems w scene"
    and "sources (fst (createAndAddSource w scene n t)) =
      objSet (sources w) (uniqueId w (uidCount w))
        \<lparr>srcId = uniqueId w (uidCount w), srcName = n, srcType = t\<rparr>"
    and "uniqueId (fst (createAndAddSource w scene n t)) = uniqueId w"
    and "uidCount (fst (createAndAddSource w scene n t)) = Suc (Suc (uidCount w))"
    and "sceneModel (fst (createAndAddSource w scene n t)) scene \<noteq> None"
proof -
  let ?u = "uniqueId w (uidCount w)"
  let ?w1 = "Sources_addSource (w\<lparr>uidCount := Suc (uidCount w)\<rparr>) ?u n t"
  have m: "sceneModel ?w1 scene = Some sc"
    using assms(1) by simp
  have c: "canAddSource ?w1 scene ?u"
    using assms(2) by (simp add: canAddSource_def source_of_Sources_addSource)
  have eq: "createAndAddSource w scene n t = addSource ?w1 scene ?u"
    by (simp add: createAndAddSource_def Let_def)
  show "getItems (fst (createAndAddSource w scene n t)) scene =
      plainItem (uniqueId w (Suc (uidCount w))) ?u # getItems w scene"
    unfolding eq by (simp add: getItems_addSource [OF m c])
  from sameFrame_addSource [of ?w1 scene ?u]
  show "sources (fst (createAndAddSource w scene n t)) =
      objSet (sources w) ?u \<lparr>srcId = ?u, srcName = n, srcType = t\<rparr>"
    and "uniqueId (fst (createAndAddSource w scene n t)) = uniqueId w"
    unfolding eq by (simp_all add: sameFrame_def Sources_addSource_def)
  show "uidCount (fst (createAndAddSource w scene n t)) = Suc (Suc (uidCount w))"
    unfolding eq by (simp add: addSource_accepted [OF m c] mutate_def)
  from sameFrame_addSource [of ?w1 scene ?u] m
  show "sceneModel (fst (createAndAddSource w scene n t)) scene \<noteq> None"
    unfolding eq by (simp add: sameFrame_sceneModel_None)
qed

text \<open>
  C9. \<^verbatim>\<open>getItems\<close> reads the most recently added item first: an accepted
  \<^verbatim>\<open>addSource\<close> puts the new item in front of the items read before, in every scene;
  and after adding the image "Image1" and then the image "Image2" to a scene without
  items, the names of the items read are Image2, Image1.
\<close>

theorem getItems_most_recent_first:
  assumes "sceneModel w scene \<noteq> None" and "inj (uniqueId w)"
  shows "(canAddSource w scene source \<longrightarrow>
            (\<exists>item. getItems (fst (addSource w scene source)) scene = item # getItems w scene
               \<and> sourceId item = source))
    \<and> (getItems w scene = [] \<longrightarrow>
          itemNames
            (fst (createAndAddSource
                    (fst (createAndAddSource w scene ''Image1'' ''image_source''))
                    scene ''Image2'' ''image_source''))
            scene = [''Image2'', ''Image1''])"
proof (intro conjI impI)
  from assms(1) obtain sc where sc: "sceneModel w scene = Some sc"
    by auto
  {
    assume "canAddSource w scene source"
    from getItems_addSource [OF sc this, of scene]
    show "\<exists>item. getItems (fst (addSource w scene source)) scene = item # getItems w scene
        \<and> sourceId item = source"
      by (simp add: plainItem_def)
  }
  {
    assume empty: "getItems w scene = []"
    let ?w1 = "fst (createAndAddSource w scene ''Image1'' ''image_source'')"
    let ?w2 = "fst (createAndAddSource ?w1 scene ''Image2'' ''image_source'')"
    let ?c = "uidCount w"
    have t: "''image_source'' \<noteq> ''scene''"
      by simp
    note one = createAndAddSource_plain [OF sc t, of "''Image1''"]
    from one(5) obtain sc1 where sc1: "sceneModel ?w1 scene = Some sc1"
      by auto
    note two = createAndAddSource_plain [OF sc1 t, of "''Image2''"]
    have items: "map sourceId (getItems ?w2 scene) =
        [uniqueId w (Suc (Suc ?c)), uniqueId w ?c]"
      by (simp add: two(1) one empty plainItem_def)
    have differ: "uniqueId w ?c \<noteq> uniqueId w (Suc (Suc ?c))"
      using assms(2) by (auto dest: injD)
    have srcs: "map_of (sources ?w2) (uniqueId w (Suc (Suc ?c))) =
          Some \<lparr>srcId = uniqueId w (Suc (Suc ?c)), srcName = ''Image2'',
                srcType = ''image_source''\<rparr>"
        "map_of (sources ?w2) (uniqueId w ?c) =
          Some \<lparr>srcId = uniqueId w ?c, srcName = ''Image1'', srcType = ''image_source''\<rparr>"
      using differ by (simp_all add: two(2) one map_of_objSet)
    have "itemNames ?w2 scene =
        map (\<lambda>s. case map_of (sources ?w2) s of None \<Rightarrow> '''' | Some s \<Rightarrow> srcName s)
          (map sourceId (getItems ?w2 scene))"
      by (simp add: itemNames_def comp_def)
    then show "itemNames ?w2 scene = [''Image2'', ''Image1'']"
      unfolding items by (simp add: srcs)
  }
qed

lemma inj_idSequence: "inj idSequence"
proof (rule injI)
  fix a b
  assume "idSequence a = idSequence b"
  then have "length (idSequence a) = length (idSequence b)"
    by simp
  then show "a = b"
    by (simp add: idSequence_def)
qed

theorem getItems_most_recent_first_witness:
  "sceneModel soloWorld ''scene_1'' \<noteq> None
   \<and> getItems soloWorld ''scene_1'' = []
   \<and> itemNames
        (fst (createAndAddSource
                (fst (createAndAddSource soloWorld ''scene_1'' ''Image1'' ''image_source''))
                ''scene_1'' ''Image2'' ''image_source''))
        ''scene_1'' = [''Image2'', ''Image1'']
   \<and> canAddSource studioWorld ''S2'' ''img2''
   \<and> map sourceId (getItems (fst (addSource studioWorld ''S2'' ''img2'')) ''S2'')
        = [''img2'', ''S1'', ''img1'']"
proof -
  have a: "sceneModel soloWorld ''scene_1'' \<noteq> None" "getItems soloWorld ''scene_1'' = []"
    by (simp_all add: sceneModel_def getItems_def soloWorld_def sceneRecord_def)
  have i: "inj (uniqueId soloWorld)" "inj (uniqueId studioWorld)"
    by (simp_all add: soloWorld_def studioWorld_def inj_idSequence)
  have b: "sceneModel studioWorld ''S2'' \<noteq> None" "canAddSource studioWorld ''S2'' ''img2''"
    "map sourceId (getItems studioWorld ''S2'') = [''S1'', ''img1'']"
    by (simp_all add: sceneModel_def getItems_def studioWorld_def sceneRecord_def
        canAddSource_def plainItem_def sceneSource_def)
  from getItems_most_recent_first [OF a(1) i(1), of "''x''"]
    getItems_most_recent_first [OF b(1) i(2), of "''img2''"] a b
  show ?thesis by auto
qed

subsection \<open>Creating a scene\<close>

lemma duplicateItems_frame:
  "sameFrame w (fst (duplicateItems w s items))
   \<and> list_all isItemEffect (fst (snd (duplicateItems w s items)))"
proof (induction items arbitrary: w)
  case Nil
  show ?case by simp
next
  case (Cons item items)
  obtain w1 es1 r1 where a: "addSource w s (sourceId item) = (w1, es1, r1)"
    by (cases "addSource w s (sourceId item)")
  from sameFrame_addSource [of w s "sourceId item"] effects_addSource [of w s "sourceId item"]
  have f1: "sameFrame w w1" "list_all isItemEffect es1"
    by (simp_all add: a)
  show ?case
  proof (cases r1)
    case None
    with a f1 show ?thesis by simp
  next
    case (Some k)
    obtain w2 es2 where b: "setSettings w1 s k (getSettings item) = (w2, es2)"
      by (cases "setSettings w1 s k (getSettings item)")
    from sameFrame_updateItem [of w1 s k "applySettings (getSettings item)"]
      effects_updateItem [of w1 s k "applySettings (getSettings item)"]
    have f2: "sameFrame w1 w2" "list_all isItemEffect es2"
      using b by (simp_all add: setSettings_def)
    obtain w3 es3 r3 where c: "duplicateItems w2 s items = (w3, es3, r3)"
      by (cases "duplicateItems w2 s items")
    from Cons.IH [of w2] have f3: "sameFrame w2 w3" "list_all isItemEffect es3"
      by (simp_all add: c)
    from f1 f2 f3 have "sameFrame w w3"
      by (blast intro: sameFrame_trans)
    with f1 f2 f3 show ?thesis
      by (simp add: a Some b c)
  qed
qed

lemma duplicateSources_frame:
  "sameFrame w (fst (duplicateSources w i options))
   \<and> list_all isItemEffect (fst (snd (duplicateSources w i options)))"
  using duplicateItems_frame
  by (simp add: duplicateSources_def split: option.splits)

lemma newSceneId_frame [simp]:
  "state (snd (newSceneId w options)) = state w"
  "sources (snd (newSceneId w options)) = sources w"
  "uniqueId (snd (newSceneId w options)) = uniqueId w"
  by (simp_all add: newSceneId_def split: option.splits)

lemma newSceneId_not_empty: "fst (newSceneId w options) \<noteq> ''''"
  by (simp add: newSceneId_def split: option.splits)

lemma registered_facts:
  "activeSceneId (state (registered w n options)) =
     (if activeSceneId (state w) = '''' then fst (newSceneId w options)
      else activeSceneId (state w))"
  "displayOrder (state (registered w n options)) =
     displayOrder (state w) @ [fst (newSceneId w options)]"
  "scenes (state (registered w n options)) =
     objSet (scenes (state w)) (fst (newSceneId w options))
       (emptyScene (fst (newSceneId w options)) n)"
  "sources (registered w n options) =
     objSet (sources w) (fst (newSceneId w options))
       \<lparr>srcId = fst (newSceneId w options), srcName = n, srcType = ''scene''\<rparr>"
  "sceneModel (registered w n options) (fst (newSceneId w options)) =
     Some (emptyScene (fst (newSceneId w options)) n)"
  by (simp_all add: registered_def mutate_def ADD_SCENE_def emptyScene_def sceneModel_def
      map_of_objSet Sources_addSource_def)

lemma not_item_effects [simp]:
  "isItemEffect e \<Longrightarrow> \<not> isSceneSwitched e"
  "isItemEffect e \<Longrightarrow> \<not> isSceneAdded e"
  "isItemEffect e \<Longrightarrow> \<not> isSceneRemoved e"
  by (cases e; simp add: isItemEffect_def isSceneSwitched_def isSceneAdded_def
      isSceneRemoved_def)+


text \<open>
  What \<^verbatim>\<open>createScene\<close> does after the duplication of the sources has come to the world
  \<open>w3\<close> with the effects \<open>es3\<close>.
\<close>

lemma createScene_result:
  assumes "duplicateSources (registered w n options) (fst (newSceneId w options)) options
      = (w3, es3, r)"
  shows "\<exists>m. sceneModel w3 (fst (newSceneId w options)) = Some m
    \<and> createScene w n options =
        (case r of
           TypeError \<Rightarrow> (w3, es3, TypeError)
         | Returned u \<Rightarrow>
             if makeActive options
             then (mutate (MAKE_SCENE_ACTIVE (fst (newSceneId w options))) w3,
                   es3 @ [SceneAdded m, SceneSwitched m],
                   Returned (getSceneByName
                     (mutate (MAKE_SCENE_ACTIVE (fst (newSceneId w options))) w3) n))
             else (w3, es3 @ [SceneAdded m], Returned (getSceneByName w3 n)))"
proof -
  let ?i = "fst (newSceneId w options)"
  from duplicateSources_frame [of "registered w n options" ?i options] assms
  have frame: "sameFrame (registered w n options) w3"
    by simp
  have "sceneModel (registered w n options) ?i \<noteq> None"
    by (simp add: registered_facts)
  with sameFrame_sceneModel_None [OF frame, of ?i] have "sceneModel w3 ?i \<noteq> None"
    by simp
  then obtain m where m: "sceneModel w3 ?i = Some m"
    by auto
  have "createScene w n options =
        (case r of
           TypeError \<Rightarrow> (w3, es3, TypeError)
         | Returned u \<Rightarrow>
             if makeActive options
             then (mutate (MAKE_SCENE_ACTIVE ?i) w3, es3 @ [SceneAdded m, SceneSwitched m],
                   Returned (getSceneByName (mutate (MAKE_SCENE_ACTIVE ?i) w3) n))
             else (w3, es3 @ [SceneAdded m], Returned (getSceneByName w3 n)))"
    using assms m
    by (simp add: createScene_def registered_def Let_def case_prod_beta makeSceneActive_def
        split: outcome.splits)
  with m show ?thesis by blast
qed



lemma newSceneId_examples:
  "fst (newSceneId emptyWorld noOptions) = ''scene_i''"
  "fst (newSceneId soloWorld noOptions) = ''scene_i''"
  "fst (newSceneId soloWorld activeOptions) = ''scene_i''"
  by (simp_all add: newSceneId_def noOptions_def activeOptions_def emptyWorld_def soloWorld_def
      idSequence_def)


lemma objSet_entries:
  "set (objSet d k v) \<subseteq> insert (k, v) (set d)"
proof -
  have "set (AList.update k v d) \<subseteq> insert (k, v) (set d)"
    by (induction d) auto
  then show ?thesis
    by (simp add: objSet_def set_insertIndexKey)
qed

lemma objSet_entry: "(k, v) \<in> set (objSet d k v)"
  by (rule map_of_SomeD) (simp add: map_of_objSet)

lemma registered_filed:
  assumes "list_all (\<lambda>e. id' (snd e) = fst e) (scenes (state w))"
  shows "list_all (\<lambda>e. id' (snd e) = fst e) (scenes (state (registered w n options)))"
  using assms objSet_entries [of "scenes (state w)" "fst (newSceneId w options)"
      "emptyScene (fst (newSceneId w options)) n"]
  by (auto simp: list_all_iff registered_facts emptyScene_def)

text \<open>
  C4, as amended. \<^verbatim>\<open>createScene\<close> does not look at the name: with an empty name (and no
  sources to duplicate) it registers a scene with the empty name under the new id, emits
  one scene-added event for it and returns a scene, not null. Refusing an empty name is
  left to the caller.
\<close>

theorem createScene_empty_name_accepted:
  assumes "duplicateSourcesFromScene options = None"
    and "list_all (\<lambda>e. id' (snd e) = fst e) (scenes (state w))"
  shows "\<exists>w' es h. createScene w '''' options = (w', es, Returned (Some h))
    \<and> sceneModel w' (fst (newSceneId w options)) =
        Some (emptyScene (fst (newSceneId w options)) '''')
    \<and> filter isSceneAdded es = [SceneAdded (emptyScene (fst (newSceneId w options)) '''')]"
proof -
  let ?i = "fst (newSceneId w options)"
  let ?w3 = "registered w '''' options"
  let ?w4 = "mutate (MAKE_SCENE_ACTIVE ?i) ?w3"
  have d: "duplicateSources ?w3 ?i options = (?w3, [], Returned ())"
    using assms(1) by (simp add: duplicateSources_def)
  have m: "sceneModel ?w3 ?i = Some (emptyScene ?i '''')"
    by (simp add: registered_facts)
  from createScene_result [OF d] m
  have cs: "createScene w '''' options =
      (if makeActive options
       then (?w4, [SceneAdded (emptyScene ?i ''''), SceneSwitched (emptyScene ?i '''')],
             Returned (getSceneByName ?w4 ''''))
       else (?w3, [SceneAdded (emptyScene ?i '''')], Returned (getSceneByName ?w3 '''')))"
    by auto
  have filed: "list_all (\<lambda>e. id' (snd e) = fst e) (scenes (state ?w3))"
    using assms(2) by (rule registered_filed)
  have entry: "(?i, emptyScene ?i '''') \<in> set (scenes (state ?w3))"
    by (simp add: registered_facts objSet_entry)
  have nm: "name (emptyScene ?i '''') = ''''"
    by (simp add: emptyScene_def)
  from getSceneByName_found [OF filed entry nm]
  obtain h where h: "getSceneByName ?w3 '''' = Some h"
    by blast
  have same: "getSceneByName ?w4 '''' = getSceneByName ?w3 ''''"
    "sceneModel ?w4 ?i = sceneModel ?w3 ?i"
    by (simp_all add: getSceneByName_def getScene_def sceneModel_def mutate_def
        MAKE_SCENE_ACTIVE_def split: option.splits)
  show ?thesis
    using cs h m same by (simp add: isSceneAdded_def)
qed

text \<open>
  C4, as stated, fails: with the default scene alone, \<^verbatim>\<open>createScene('')\<close> registers a second
  scene, emits scene-added for it and returns it.
\<close>

theorem createScene_empty_name_counterexample:
  "sceneIds soloWorld = [''scene_1'']
   \<and> sceneIds (fst (createScene soloWorld '''' noOptions)) = [''scene_1'', ''scene_i'']
   \<and> fst (snd (createScene soloWorld '''' noOptions)) = [SceneAdded (emptyScene ''scene_i'' '''')]
   \<and> snd (snd (createScene soloWorld '''' noOptions)) = Returned (Some ''scene_i'')"
  by (simp add: createScene_def duplicateSources_def noOptions_def newSceneId_def soloWorld_def
      idSequence_def mutate_def ADD_SCENE_def objSet_def isArrayIndex_def isDigit_def
      Sources_addSource_def sceneModel_def getSceneByName_def getScene_def sceneRecord_def
      sceneSource_def emptyScene_def sceneIds_def)

theorem createScene_empty_name_accepted_witness:
  "duplicateSourcesFromScene noOptions = None
   \<and> sceneModel (fst (createScene soloWorld '''' noOptions)) ''scene_i''
       = Some (emptyScene ''scene_i'' '''')
   \<and> length (filter isSceneAdded (fst (snd (createScene soloWorld '''' noOptions)))) = 1"
proof -
  have a: "duplicateSourcesFromScene noOptions = None"
    by (simp add: noOptions_def)
  have b: "list_all (\<lambda>e. id' (snd e) = fst e) (scenes (state soloWorld))"
    by (simp add: soloWorld_def sceneRecord_def)
  from createScene_empty_name_accepted [OF a b] a newSceneId_examples(2)
  show ?thesis by auto
qed

subsection \<open>Nested scenes\<close>

lemma nestedIn_iff: "(a, b) \<in> nestedIn w \<longleftrightarrow> b \<in> set (nestedSceneIds w a)"
  by (simp add: nestedIn_def)

text \<open>The walk of depth \<open>n\<close> finds the scenes that are 1 to \<open>n\<close> levels below a scene.\<close>

lemma hasNestedScene_relpow:
  "hasNestedScene n w c t \<longleftrightarrow> (\<exists>k. 0 < k \<and> k \<le> n \<and> (c, t) \<in> nestedIn w ^^ k)"
proof (induction n arbitrary: c)
  case 0
  show ?case by simp
next
  case (Suc n)
  show ?case
  proof
    assume "hasNestedScene (Suc n) w c t"
    then obtain child where child: "(c, child) \<in> nestedIn w"
      and below: "child = t \<or> hasNestedScene n w child t"
      by (auto simp: list_ex_iff nestedIn_iff)
    from below show "\<exists>k. 0 < k \<and> k \<le> Suc n \<and> (c, t) \<in> nestedIn w ^^ k"
    proof
      assume "child = t"
      with child have "(c, t) \<in> nestedIn w ^^ 1"
        by simp
      then show ?thesis
        by (intro exI [of _ 1]) simp
    next
      assume "hasNestedScene n w child t"
      with Suc.IH obtain k where k: "0 < k" "k \<le> n" "(child, t) \<in> nestedIn w ^^ k"
        by blast
      from child k(3) have "(c, t) \<in> nestedIn w ^^ Suc k"
        by (rule relpow_Suc_I2)
      with k show ?thesis
        by (intro exI [of _ "Suc k"]) simp
    qed
  next
    assume "\<exists>k. 0 < k \<and> k \<le> Suc n \<and> (c, t) \<in> nestedIn w ^^ k"
    then obtain k where k: "0 < k" "k \<le> Suc n" "(c, t) \<in> nestedIn w ^^ k"
      by blast
    then obtain j where j: "k = Suc j"
      by (cases k) auto
    with k(3) obtain child where child: "(c, child) \<in> nestedIn w"
      and rest: "(child, t) \<in> nestedIn w ^^ j"
      by (blast dest: relpow_Suc_D2)
    have "child = t \<or> hasNestedScene n w child t"
    proof (cases j)
      case 0
      with rest show ?thesis by simp
    next
      case (Suc j')
      with rest k(2) j have "0 < j \<and> j \<le> n \<and> (child, t) \<in> nestedIn w ^^ j"
        by simp
      then show ?thesis
        using Suc.IH by blast
    qed
    with child show "hasNestedScene (Suc n) w c t"
      by (auto simp: list_ex_iff nestedIn_iff)
  qed
qed

lemma itemsOf_member: "it \<in> set (itemsOf ns) \<Longrightarrow> Item it \<in> set ns"
  by (induction ns) (auto simp: itemsOf_def split: TSceneNode.splits)

lemma nestedIn_bounded: "finite (nestedIn w) \<and> card (nestedIn w) \<le> nodeCount w"
proof -
  let ?pairs = "concat (map (\<lambda>e. map (Pair (fst e)) (nodes (snd e))) (scenes (state w)))"
  let ?f = "\<lambda>p. (fst p, case snd p of Item it \<Rightarrow> sourceId it | Folder fo \<Rightarrow> '''')"
  have sub: "nestedIn w \<subseteq> ?f ` set ?pairs"
  proof
    fix p
    assume "p \<in> nestedIn w"
    then obtain a b where p: "p = (a, b)" and "b \<in> set (nestedSceneIds w a)"
      by (auto simp: nestedIn_def)
    then obtain it where it: "it \<in> set (getItems w a)" "sourceId it = b"
      by (auto simp: nestedSceneIds_def)
    then obtain sc where sc: "map_of (scenes (state w)) a = Some sc"
      and mem: "it \<in> set (itemsOf (nodes sc))"
      by (cases "map_of (scenes (state w)) a") (auto simp: getItems_def sceneModel_def)
    from sc have "(a, sc) \<in> set (scenes (state w))"
      by (rule map_of_SomeD)
    moreover from mem have "Item it \<in> set (nodes sc)"
      by (rule itemsOf_member)
    ultimately have "(a, Item it) \<in> set ?pairs"
      by force
    then have "?f (a, Item it) \<in> ?f ` set ?pairs"
      by (rule imageI)
    with it(2) p show "p \<in> ?f ` set ?pairs"
      by simp
  qed
  have len: "length ?pairs = nodeCount w"
    by (simp add: nodeCount_def length_concat comp_def)
  have fin: "finite (?f ` set ?pairs)"
    by simp
  have "card (nestedIn w) \<le> card (?f ` set ?pairs)"
    using sub fin by (rule card_mono [rotated])
  also have "\<dots> \<le> card (set ?pairs)"
    by (rule card_image_le) simp
  also have "\<dots> \<le> length ?pairs"
    by (rule card_length)
  finally have "card (nestedIn w) \<le> nodeCount w"
    by (simp only: len)
  moreover from sub fin have "finite (nestedIn w)"
    by (rule finite_subset)
  ultimately show ?thesis by simp
qed

text \<open>The walk of \<^verbatim>\<open>canAddSource\<close> decides the transitive closure of the nesting.\<close>

lemma hasNestedScene_trancl:
  "hasNestedScene (nodeCount w) w c t \<longleftrightarrow> (c, t) \<in> (nestedIn w)\<^sup>+"
proof
  assume "hasNestedScene (nodeCount w) w c t"
  then show "(c, t) \<in> (nestedIn w)\<^sup>+"
    by (auto simp: hasNestedScene_relpow trancl_power)
next
  assume t: "(c, t) \<in> (nestedIn w)\<^sup>+"
  from nestedIn_bounded have fin: "finite (nestedIn w)"
    and card: "card (nestedIn w) \<le> nodeCount w"
    by simp_all
  from t have "nestedIn w \<noteq> {}"
    by auto
  with fin have pos: "0 < card (nestedIn w)"
    by (simp add: card_gt_0_iff)
  from t have "(c, t) \<in> ntrancl (card (nestedIn w) - 1) (nestedIn w)"
    by (simp only: finite_trancl_ntranl [OF fin])
  then obtain k where "0 < k" "k \<le> Suc (card (nestedIn w) - 1)" "(c, t) \<in> nestedIn w ^^ k"
    by (auto simp: ntrancl_def)
  with pos card have "0 < k \<and> k \<le> nodeCount w \<and> (c, t) \<in> nestedIn w ^^ k"
    by simp
  then show "hasNestedScene (nodeCount w) w c t"
    unfolding hasNestedScene_relpow by blast
qed

lemma isSceneSource_frame: "sameFrame w w' \<Longrightarrow> isSceneSource w' = isSceneSource w"
  by (simp add: sameFrame_def isSceneSource_def fun_eq_iff)

lemma nestedIn_addSource:
  assumes "sceneModel w scene = Some sc" "canAddSource w scene source"
  shows "nestedIn (fst (addSource w scene source)) =
    (if isSceneSource w source then insert (scene, source) (nestedIn w) else nestedIn w)"
proof -
  have src: "isSceneSource (fst (addSource w scene source)) = isSceneSource w"
    using sameFrame_addSource by (rule isSceneSource_frame)
  show ?thesis
    by (auto simp: nestedIn_def nestedSceneIds_def src getItems_addSource [OF assms]
        plainItem_def split: if_splits)
qed

lemma canAddSource_scene:
  assumes "canAddSource w scene source" "isSceneSource w source"
  shows "scene \<noteq> source" "(source, scene) \<notin> (nestedIn w)\<^sup>+"
  using assms
  by (auto simp: canAddSource_def isSceneSource_def hasNestedScene_trancl
      split: option.splits if_splits)

lemma addSource_acyclic:
  assumes "acyclic (nestedIn w)"
  shows "acyclic (nestedIn (fst (addSource w scene source)))"
proof (cases "sceneModel w scene")
  case None
  with assms show ?thesis by (simp add: addSource_def)
next
  case (Some sc)
  show ?thesis
  proof (cases "canAddSource w scene source")
    case False
    with assms show ?thesis by (simp add: addSource_refused)
  next
    case True
    show ?thesis
    proof (cases "isSceneSource w source")
      case False
      with assms show ?thesis
        by (simp add: nestedIn_addSource [OF Some True])
    next
      case scene: True
      from canAddSource_scene [OF True scene]
      have "(source, scene) \<notin> (nestedIn w)\<^sup>*"
        by (auto simp: rtrancl_eq_or_trancl)
      with assms scene show ?thesis
        by (simp add: nestedIn_addSource [OF Some True])
    qed
  qed
qed

lemma addSources_acyclic:
  "acyclic (nestedIn w) \<Longrightarrow> acyclic (nestedIn (addSources w calls))"
  by (induction calls arbitrary: w) (simp_all add: addSource_acyclic)

text \<open>
  C1. Whatever the sequence of \<^verbatim>\<open>addSource\<close> calls, on whatever scenes, a graph of scenes
  in which no scene is reachable from itself through "a node references the nested scene"
  stays so; and when scene \<open>a\<close> is contained in scene \<open>c\<close>, directly or through other
  scenes, or is \<open>c\<close> itself, \<^verbatim>\<open>addSource(c)\<close> on \<open>a\<close> is refused and the world after the
  call is the world before it.
\<close>

theorem addSource_cycle_freedom:
  assumes "acyclic (nestedIn w)"
  shows "acyclic (nestedIn (addSources w calls))
    \<and> (isSceneSource w c \<and> (c = a \<or> (c, a) \<in> (nestedIn w)\<^sup>+)
         \<longrightarrow> addSource w a c = (w, [], None))"
proof
  from assms show "acyclic (nestedIn (addSources w calls))"
    by (rule addSources_acyclic)
  show "isSceneSource w c \<and> (c = a \<or> (c, a) \<in> (nestedIn w)\<^sup>+)
      \<longrightarrow> addSource w a c = (w, [], None)"
  proof
    assume h: "isSceneSource w c \<and> (c = a \<or> (c, a) \<in> (nestedIn w)\<^sup>+)"
    then have "\<not> canAddSource w a c"
      by (auto simp: canAddSource_def isSceneSource_def hasNestedScene_trancl
          split: option.splits)
    then show "addSource w a c = (w, [], None)"
      by (rule addSource_refused)
  qed
qed

lemma nestedIn_nestedWorld: "nestedIn nestedWorld = {(''A'', ''B''), (''C'', ''A'')}"
  by (auto simp: nestedIn_def nestedSceneIds_def getItems_def sceneModel_def nestedWorld_def
      sceneRecord_def plainItem_def isSceneSource_def sceneSource_def split: if_splits)

lemma acyclic_nestedWorld: "acyclic (nestedIn nestedWorld)"
  by (simp add: nestedIn_nestedWorld rtrancl_insert) (simp add: acyclic_def)

text \<open>
  The test "Creating nested scenes": A embeds B and C embeds A; then \<^verbatim>\<open>addSource(C)\<close> on A
  is refused and A still holds B alone.
\<close>

theorem addSource_cycle_freedom_witness:
  "acyclic (nestedIn nestedWorld)
   \<and> isSceneSource nestedWorld ''C''
   \<and> (''C'', ''A'') \<in> (nestedIn nestedWorld)\<^sup>+
   \<and> addSource nestedWorld ''A'' ''C'' = (nestedWorld, [], None)
   \<and> acyclic (nestedIn (addSources nestedWorld [(''B'', ''C''), (''A'', ''C'')]))"
proof -
  have s: "isSceneSource nestedWorld ''C''"
    by (simp add: isSceneSource_def nestedWorld_def sceneSource_def)
  have t: "(''C'', ''A'') \<in> (nestedIn nestedWorld)\<^sup>+"
    by (rule r_into_trancl) (simp add: nestedIn_nestedWorld)
  from addSource_cycle_freedom [OF acyclic_nestedWorld,
      of "[(''B'', ''C''), (''A'', ''C'')]" "''C''" "''A''"] acyclic_nestedWorld s t
  show ?thesis by simp
qed

text \<open>The test "Creating nested scenes", run on the model.\<close>

lemma nested_scenes_test:
  "map sourceId
     (getItems (addSources threeScenes [(''A'', ''B''), (''C'', ''A''), (''A'', ''C'')]) ''A'')
   = [''B'']"
  "map sourceId
     (getItems (addSources threeScenes [(''A'', ''B''), (''C'', ''A''), (''A'', ''C'')]) ''C'')
   = [''A'']"
  by code_simp+

subsection \<open>Removing items\<close>







subsection \<open>Removing a scene\<close>


lemma sceneModel_None_iff: "sceneModel w a = None \<longleftrightarrow> a \<notin> set (sceneIds w)"
  by (simp add: sceneModel_def sceneIds_def map_of_eq_None_iff)









lemma MAKE_SCENE_ACTIVE_facts:
  "sceneModel (mutate (MAKE_SCENE_ACTIVE k) w) a = sceneModel w a"
  "getItems (mutate (MAKE_SCENE_ACTIVE k) w) a = getItems w a"
  "displayOrder (state (mutate (MAKE_SCENE_ACTIVE k) w)) = displayOrder (state w)"
  "activeSceneId (state (mutate (MAKE_SCENE_ACTIVE k) w)) = k"
  by (simp_all add: sceneModel_def getItems_def mutate_def MAKE_SCENE_ACTIVE_def)




lemma studioWorld_facts:
  "wellFormed studioWorld"
  "sceneModel studioWorld ''S1'' =
     Some (snd (sceneRecord ''S1'' ''Scene''
       [Item (plainItem ''n2'' ''img2''), Item (plainItem ''n1'' ''img1'')]))"
  "sceneIds studioWorld = [''S1'', ''S2'']"
  "activeSceneId (state studioWorld) = ''S1''"
  "getItems studioWorld ''S1'' = [plainItem ''n2'' ''img2'', plainItem ''n1'' ''img1'']"
  "getItems studioWorld ''S2'' = [plainItem ''n4'' ''S1'', plainItem ''n3'' ''img1'']"
  "nestedRemovals studioWorld ''S1'' = [ItemRemoved ''S2'' (plainItem ''n4'' ''S1'')]"
  by (simp_all add: wellFormed_def studioWorld_def sceneIds_def sceneRecord_def plainItem_def
      sceneModel_def getItems_def nestedRemovals_def allItems_def)


subsection \<open>Duplicating the items of a scene\<close>

lemma map_update_id:
  "find (\<lambda>it. sceneItemId it = k) xs = None \<Longrightarrow>
   map (\<lambda>it. if sceneItemId it = k then f it else it) xs = xs"
  by (induction xs) (auto split: if_splits)

lemma getItems_updateItem:
  "getItems (fst (updateItem w s k f)) a =
     (if a = s then map (\<lambda>it. if sceneItemId it = k then f it else it) (getItems w s)
      else getItems w a)"
  by (auto simp: updateItem_def getItems_def sceneModel_setNodes itemsOf_update map_update_id
      split: option.splits)

lemma uidCount_updateItem: "uidCount (fst (updateItem w s k f)) = uidCount w"
  by (simp add: updateItem_def mutate_def split: option.splits)

lemma uidCount_addSource:
  assumes "sceneModel w s = Some sc" "canAddSource w s source"
  shows "uidCount (fst (addSource w s source)) = Suc (uidCount w)"
  by (simp add: addSource_accepted [OF assms] mutate_def)

lemma unreferencedD:
  assumes "unreferenced w i" "it \<in> set (getItems w a)"
  shows "sourceId it \<noteq> i"
proof -
  from assms(2) obtain sc where sc: "map_of (scenes (state w)) a = Some sc"
    and mem: "it \<in> set (itemsOf (nodes sc))"
    by (cases "map_of (scenes (state w)) a") (auto simp: getItems_def sceneModel_def)
  from sc have "(a, sc) \<in> set (scenes (state w))"
    by (rule map_of_SomeD)
  with assms(1) mem show "sourceId it \<noteq> i"
    by (auto simp: unreferenced_def list_all_iff)
qed

text \<open>A scene that no item shows can take any registered source but itself.\<close>

lemma canAddSource_unreferenced:
  assumes unref: "\<And>a it. it \<in> set (getItems w a) \<Longrightarrow> sourceId it \<noteq> i"
    and known: "map_of (sources w) source \<noteq> None" and other: "source \<noteq> i"
  shows "canAddSource w i source"
proof -
  have "(source, i) \<notin> (nestedIn w)\<^sup>+"
  proof
    assume "(source, i) \<in> (nestedIn w)\<^sup>+"
    then obtain y where "(y, i) \<in> nestedIn w"
      by (blast dest: tranclD2)
    then obtain it where "it \<in> set (getItems w y)" "sourceId it = i"
      by (auto simp: nestedIn_def nestedSceneIds_def)
    with unref show False
      by blast
  qed
  with known other show ?thesis
    by (auto simp: canAddSource_def hasNestedScene_trancl split: option.splits)
qed

lemma stored_copy:
  "getSettings (applySettings (getSettings x) (plainItem k source)) =
     storedSettings (getSettings x)"
  "sourceId (applySettings st it) = sourceId it"
  "sceneItemId (applySettings st it) = sceneItemId it"
  by (simp_all add: getSettings_def applySettings_def plainItem_def storedSettings_def)

text \<open>
  The loop of \<^verbatim>\<open>createScene\<close>: every item of the list gets a copy in front of the items
  of the new scene, with the source of the item and its settings.
\<close>

lemma duplicateItems_copies:
  assumes "sceneModel w i \<noteq> None"
    and "\<forall>a it. it \<in> set (getItems w a) \<longrightarrow> sourceId it \<noteq> i"
    and "\<forall>x \<in> set xs. map_of (sources w) (sourceId x) \<noteq> None \<and> sourceId x \<noteq> i"
    and "inj (uniqueId w)"
    and "\<forall>it \<in> set (getItems w i). sceneItemId it \<in> uniqueId w ` {..<uidCount w}"
  shows "\<exists>w' es. duplicateItems w i xs = (w', es, Returned ())
    \<and> map sourceId (getItems w' i) = rev (map sourceId xs) @ map sourceId (getItems w i)
    \<and> map getSettings (getItems w' i) =
        rev (map (\<lambda>x. storedSettings (getSettings x)) xs) @ map getSettings (getItems w i)
    \<and> (\<forall>a. a \<noteq> i \<longrightarrow> getItems w' a = getItems w a)
    \<and> sameFrame w w'"
  using assms
proof (induction xs arbitrary: w)
  case Nil
  show ?case by simp
next
  case (Cons x xs)
  let ?c = "uidCount w"
  let ?k = "uniqueId w ?c"
  let ?new = "plainItem ?k (sourceId x)"
  let ?f = "applySettings (getSettings x)"
  from Cons.prems(1) obtain sc where sc: "sceneModel w i = Some sc"
    by auto
  have can: "canAddSource w i (sourceId x)"
    using Cons.prems(2) Cons.prems(3) by (intro canAddSource_unreferenced) simp_all
  obtain w1 where w1: "addSource w i (sourceId x) = (w1, [ItemAdded i ?new], Some ?k)"
    by (simp add: addSource_accepted [OF sc can])
  have items1: "\<And>a. getItems w1 a = (if a = i then ?new # getItems w i else getItems w a)"
    using getItems_addSource [OF sc can] by (simp add: w1)
  have f1: "sameFrame w w1"
    using sameFrame_addSource [of w i "sourceId x"] by (simp add: w1)
  have c1: "uidCount w1 = Suc ?c"
    using uidCount_addSource [OF sc can] by (simp add: w1)
  obtain w2 es2 where w2: "setSettings w1 i ?k (getSettings x) = (w2, es2)"
    by (cases "setSettings w1 i ?k (getSettings x)")
  have old: "sceneItemId it \<noteq> ?k" if "it \<in> set (getItems w i)" for it
  proof
    assume eq: "sceneItemId it = ?k"
    from Cons.prems(5) that obtain j where "j < ?c" "sceneItemId it = uniqueId w j"
      by auto
    with eq Cons.prems(4) show False
      by (auto dest: injD)
  qed
  then have keep: "map (\<lambda>it. if sceneItemId it = ?k then ?f it else it) (getItems w i)
      = getItems w i"
    by (simp add: map_idI)
  have items2: "\<And>a. getItems w2 a = (if a = i then ?f ?new # getItems w i else getItems w a)"
    using getItems_updateItem [of w1 i ?k ?f] w2
    by (simp add: setSettings_def items1 keep) (simp add: plainItem_def)
  have f2: "sameFrame w1 w2"
    using sameFrame_updateItem [of w1 i ?k ?f] w2 by (simp add: setSettings_def)
  have c2: "uidCount w2 = Suc ?c"
    using uidCount_updateItem [of w1 i ?k ?f] w2 by (simp add: setSettings_def c1)
  from f1 f2 have f12: "sameFrame w w2"
    by (rule sameFrame_trans)
  then have frame: "sources w2 = sources w" "uniqueId w2 = uniqueId w"
    by (simp_all add: sameFrame_def)
  have p1: "sceneModel w2 i \<noteq> None"
    using sameFrame_sceneModel_None [OF f12, of i] Cons.prems(1) by simp
  have p2: "\<forall>a it. it \<in> set (getItems w2 a) \<longrightarrow> sourceId it \<noteq> i"
    using Cons.prems(2) Cons.prems(3)
    by (auto simp: items2 stored_copy plainItem_def split: if_splits)
  have p3: "\<forall>y \<in> set xs. map_of (sources w2) (sourceId y) \<noteq> None \<and> sourceId y \<noteq> i"
    using Cons.prems(3) by (simp add: frame)
  have p4: "inj (uniqueId w2)"
    using Cons.prems(4) by (simp add: frame)
  have p5: "\<forall>it \<in> set (getItems w2 i). sceneItemId it \<in> uniqueId w2 ` {..<uidCount w2}"
  proof
    fix it
    assume "it \<in> set (getItems w2 i)"
    then have "it = ?f ?new \<or> it \<in> set (getItems w i)"
      by (simp add: items2)
    then show "sceneItemId it \<in> uniqueId w2 ` {..<uidCount w2}"
    proof
      assume "it = ?f ?new"
      then have "sceneItemId it = uniqueId w ?c"
        by (simp add: stored_copy plainItem_def)
      then show ?thesis
        by (simp add: frame c2)
    next
      assume "it \<in> set (getItems w i)"
      with Cons.prems(5) obtain j where "j < ?c" "sceneItemId it = uniqueId w j"
        by auto
      then have "j < Suc ?c \<and> sceneItemId it = uniqueId w j"
        by simp
      then show ?thesis
        unfolding frame c2 by blast
    qed
  qed
  from Cons.IH [OF p1 p2 p3 p4 p5] obtain w3 es3 where
    w3: "duplicateItems w2 i xs = (w3, es3, Returned ())"
    and src3: "map sourceId (getItems w3 i) =
        rev (map sourceId xs) @ map sourceId (getItems w2 i)"
    and set3: "map getSettings (getItems w3 i) =
        rev (map (\<lambda>x. storedSettings (getSettings x)) xs) @ map getSettings (getItems w2 i)"
    and oth3: "\<forall>a. a \<noteq> i \<longrightarrow> getItems w3 a = getItems w2 a"
    and f3: "sameFrame w2 w3"
    by blast
  have all: "duplicateItems w i (x # xs) = (w3, [ItemAdded i ?new] @ es2 @ es3, Returned ())"
    by (simp add: w1 w2 w3)
  from f12 f3 have "sameFrame w w3"
    by (rule sameFrame_trans)
  moreover have "map sourceId (getItems w3 i) =
      rev (map sourceId (x # xs)) @ map sourceId (getItems w i)"
    by (simp add: src3 items2 stored_copy plainItem_def)
  moreover have "map getSettings (getItems w3 i) =
      rev (map (\<lambda>x. storedSettings (getSettings x)) (x # xs)) @ map getSettings (getItems w i)"
    by (simp add: set3 items2 stored_copy)
  moreover have "\<forall>a. a \<noteq> i \<longrightarrow> getItems w3 a = getItems w a"
    using oth3 by (simp add: items2)
  ultimately show ?case
    unfolding all by blast
qed

lemma filter_objSet_new:
  assumes "k \<notin> fst ` set d" "\<not> P (k, v)"
  shows "filter P (objSet d k v) = filter P d"
proof -
  have "filter P (insertIndexKey k v d) = filter P d"
    using assms(2) by (induction d) auto
  moreover have "AList.update k v d = d @ [(k, v)]"
    using assms(1) by (induction d) auto
  ultimately show ?thesis
    using assms(2) by (simp add: objSet_def)
qed

lemma getItems_registered:
  "getItems (registered w n options) a =
     (if a = fst (newSceneId w options) then [] else getItems w a)"
  by (simp add: getItems_def sceneModel_def registered_facts map_of_objSet emptyScene_def)

lemma getSceneByName_registered:
  assumes "getSceneByName w old = Some oldScene"
    and "fst (newSceneId w options) \<notin> set (sceneIds w)" and "old \<noteq> n"
  shows "getSceneByName (registered w n options) old = Some oldScene"
    and "oldScene \<noteq> fst (newSceneId w options)"
proof -
  let ?i = "fst (newSceneId w options)"
  let ?P = "\<lambda>e. name (snd e) = old"
  have same: "filter ?P (scenes (state (registered w n options))) = filter ?P (scenes (state w))"
    unfolding registered_facts using assms(2,3)
    by (intro filter_objSet_new) (simp_all add: sceneIds_def emptyScene_def)
  from assms(1) have ne: "filter ?P (scenes (state w)) \<noteq> []"
    and old: "getScene w (id' (snd (last (filter ?P (scenes (state w)))))) = Some oldScene"
    by (auto simp: getSceneByName_def foldl_found split: option.splits if_splits)
  from old have key: "id' (snd (last (filter ?P (scenes (state w))))) = oldScene"
    and "sceneModel w oldScene \<noteq> None"
    by (auto simp: getScene_def split: option.splits)
  then have mem: "oldScene \<in> set (sceneIds w)"
    by (simp add: sceneModel_None_iff)
  with assms(2) show "oldScene \<noteq> ?i"
    by auto
  then have "sceneModel (registered w n options) oldScene = sceneModel w oldScene"
    by (simp add: sceneModel_def registered_facts map_of_objSet)
  with \<open>sceneModel w oldScene \<noteq> None\<close>
  have "getScene (registered w n options) oldScene = Some oldScene"
    by (auto simp: getScene_def split: option.splits)
  with ne key show "getSceneByName (registered w n options) old = Some oldScene"
    by (simp add: getSceneByName_def foldl_found same)
qed

text \<open>
  C5, as amended. \<^verbatim>\<open>createScene\<close> with \<^verbatim>\<open>duplicateSourcesFromScene\<close> duplicates the items of
  the template scene: for every item of the template, in the same order, the new scene
  gets a new item that refers to the source of the template item itself, the same source
  id, and carries the settings of the template item; the template keeps its items, and the
  only source registered is the new scene. This holds when the template is found under
  its name and is not the new scene, the id of the new scene is new, the sources of the
  template's items are registered and \<^verbatim>\<open>getUniqueId\<close> never repeats an id.
\<close>

theorem createScene_duplicates_items:
  assumes dup: "duplicateSourcesFromScene options = Some old" "old \<noteq> ''''" "old \<noteq> n"
    and found: "getSceneByName w old = Some oldScene"
    and fresh: "fst (newSceneId w options) \<notin> set (sceneIds w)"
      "unreferenced w (fst (newSceneId w options))"
    and known: "list_all (\<lambda>it. map_of (sources w) (sourceId it) \<noteq> None) (getItems w oldScene)"
    and uniq: "inj (uniqueId w)"
  shows "\<exists>w' es h. createScene w n options = (w', es, Returned h)
    \<and> map sourceId (getItems w' (fst (newSceneId w options))) =
        map sourceId (getItems w oldScene)
    \<and> map getSettings (getItems w' (fst (newSceneId w options))) =
        map (\<lambda>x. storedSettings (getSettings x)) (getItems w oldScene)
    \<and> getItems w' oldScene = getItems w oldScene
    \<and> sources w' =
        objSet (sources w) (fst (newSceneId w options))
          \<lparr>srcId = fst (newSceneId w options), srcName = n, srcType = ''scene''\<rparr>"
proof -
  let ?i = "fst (newSceneId w options)"
  let ?w2 = "registered w n options"
  let ?xs = "rev (getItems w oldScene)"
  note reg = getSceneByName_registered [OF found fresh(1) dup(3)]
  have items_old: "getItems ?w2 oldScene = getItems w oldScene"
    using reg(2) by (simp add: getItems_registered)
  have d: "duplicateSources ?w2 ?i options = duplicateItems ?w2 ?i ?xs"
    by (simp add: duplicateSources_def dup reg(1) items_old)
  have p1: "sceneModel ?w2 ?i \<noteq> None"
    by (simp add: registered_facts)
  have p2: "\<forall>a it. it \<in> set (getItems ?w2 a) \<longrightarrow> sourceId it \<noteq> ?i"
    using unreferencedD [OF fresh(2)] by (simp add: getItems_registered)
  have p3: "\<forall>x \<in> set ?xs. map_of (sources ?w2) (sourceId x) \<noteq> None \<and> sourceId x \<noteq> ?i"
    using known unreferencedD [OF fresh(2), of _ oldScene]
    by (auto simp: list_all_iff registered_facts map_of_objSet)
  have p4: "inj (uniqueId ?w2)"
    using uniq by (simp add: registered_def mutate_def)
  have p5: "\<forall>it \<in> set (getItems ?w2 ?i). sceneItemId it \<in> uniqueId ?w2 ` {..<uidCount ?w2}"
    by (simp add: getItems_registered)
  from duplicateItems_copies [OF p1 p2 p3 p4 p5] obtain w3 es3 where
    w3: "duplicateItems ?w2 ?i ?xs = (w3, es3, Returned ())"
    and src3: "map sourceId (getItems w3 ?i) =
        rev (map sourceId ?xs) @ map sourceId (getItems ?w2 ?i)"
    and set3: "map getSettings (getItems w3 ?i) =
        rev (map (\<lambda>x. storedSettings (getSettings x)) ?xs) @ map getSettings (getItems ?w2 ?i)"
    and oth3: "\<forall>a. a \<noteq> ?i \<longrightarrow> getItems w3 a = getItems ?w2 a"
    and f3: "sameFrame ?w2 w3"
    by blast
  have r1: "map sourceId (getItems w3 ?i) = map sourceId (getItems w oldScene)"
    by (simp add: src3 getItems_registered rev_map)
  have r2: "map getSettings (getItems w3 ?i) =
      map (\<lambda>x. storedSettings (getSettings x)) (getItems w oldScene)"
    by (simp add: set3 getItems_registered rev_map)
  have r3: "getItems w3 oldScene = getItems w oldScene"
    using oth3 reg(2) by (simp add: items_old)
  have r4: "sources w3 = objSet (sources w) ?i \<lparr>srcId = ?i, srcName = n, srcType = ''scene''\<rparr>"
    using f3 by (simp add: sameFrame_def registered_facts)
  from createScene_result [OF d [unfolded w3]] obtain m where
    cs: "createScene w n options =
        (if makeActive options
         then (mutate (MAKE_SCENE_ACTIVE ?i) w3, es3 @ [SceneAdded m, SceneSwitched m],
               Returned (getSceneByName (mutate (MAKE_SCENE_ACTIVE ?i) w3) n))
         else (w3, es3 @ [SceneAdded m], Returned (getSceneByName w3 n)))"
    by auto
  have act: "sources (mutate (MAKE_SCENE_ACTIVE ?i) w3) = sources w3"
    by (simp add: mutate_def)
  show ?thesis
  proof (cases "makeActive options")
    case True
    with cs r1 r2 r3 r4 show ?thesis
      by (simp add: MAKE_SCENE_ACTIVE_facts act)
  next
    case False
    with cs r1 r2 r3 r4 show ?thesis
      by simp
  qed
qed

text \<open>
  C5, as stated, fails: the copy of the scene with the images img2 and img1 has two new
  items, and they refer to img2 and img1 themselves; the only source that the call
  registers is the new scene.
\<close>

theorem createScene_duplicates_counterexample:
  "map sourceId (getItems studioWorld ''S1'') = [''img2'', ''img1'']
   \<and> map sourceId
        (getItems (fst (createScene studioWorld ''Copy'' (duplicateOptions ''Scene''))) ''scene_i'')
      = [''img2'', ''img1'']
   \<and> map fst (sources studioWorld) = [''S1'', ''img1'', ''img2'', ''S2'']
   \<and> map fst (sources (fst (createScene studioWorld ''Copy'' (duplicateOptions ''Scene''))))
      = [''S1'', ''img1'', ''img2'', ''S2'', ''scene_i'']"
  by code_simp

theorem createScene_duplicates_items_witness:
  "getSceneByName studioWorld ''Scene'' = Some ''S1''
   \<and> fst (newSceneId studioWorld (duplicateOptions ''Scene'')) = ''scene_i''
   \<and> unreferenced studioWorld ''scene_i''
   \<and> map sourceId
        (getItems (fst (createScene studioWorld ''Copy'' (duplicateOptions ''Scene''))) ''scene_i'')
      = [''img2'', ''img1'']
   \<and> getItems (fst (createScene studioWorld ''Copy'' (duplicateOptions ''Scene''))) ''S1''
      = [plainItem ''n2'' ''img2'', plainItem ''n1'' ''img1'']"
proof -
  have i: "fst (newSceneId studioWorld (duplicateOptions ''Scene'')) = ''scene_i''"
    by (simp add: newSceneId_def duplicateOptions_def studioWorld_def idSequence_def)
  have dup: "duplicateSourcesFromScene (duplicateOptions ''Scene'') = Some ''Scene''"
    "''Scene'' \<noteq> ''''" "''Scene'' \<noteq> ''Copy''"
    by (simp_all add: duplicateOptions_def)
  have found: "getSceneByName studioWorld ''Scene'' = Some ''S1''"
    by (simp add: getSceneByName_def getScene_def sceneModel_def studioWorld_def sceneRecord_def)
  have fresh1: "fst (newSceneId studioWorld (duplicateOptions ''Scene'')) \<notin> set (sceneIds studioWorld)"
    unfolding i by (simp add: studioWorld_facts)
  have fresh2: "unreferenced studioWorld (fst (newSceneId studioWorld (duplicateOptions ''Scene'')))"
    unfolding i by (simp add: unreferenced_def studioWorld_def sceneRecord_def plainItem_def)
  note fresh = fresh1 fresh2
  have known: "list_all (\<lambda>it. map_of (sources studioWorld) (sourceId it) \<noteq> None)
      (getItems studioWorld ''S1'')"
    by (simp add: studioWorld_facts plainItem_def) (simp add: studioWorld_def sceneSource_def)
  have uniq: "inj (uniqueId studioWorld)"
    by (simp add: studioWorld_def inj_idSequence)
  from createScene_duplicates_items [OF dup found fresh known uniq]
  show ?thesis
    using found fresh(2) by (auto simp: i studioWorld_facts plainItem_def)
qed

subsection \<open>Well-formed states\<close>

lemma wellFormed_emptyWorld: "wellFormed emptyWorld"
  by (simp add: wellFormed_def emptyWorld_def initialState_def sceneIds_def)

lemma wellFormed_createScene:
  assumes wf: "wellFormed w"
    and fresh: "fst (newSceneId w options) \<notin> set (sceneIds w)"
    and plain: "duplicateSourcesFromScene options = None"
  shows "wellFormed (fst (createScene w n options))"
proof -
  let ?i = "fst (newSceneId w options)"
  let ?w3 = "registered w n options"
  have d: "duplicateSources ?w3 ?i options = (?w3, [], Returned ())"
    using plain by (simp add: duplicateSources_def)
  from createScene_result [OF d]
  have cs: "fst (createScene w n options) =
      (if makeActive options then mutate (MAKE_SCENE_ACTIVE ?i) ?w3 else ?w3)"
    by auto
  have keys: "set (sceneIds ?w3) = insert ?i (set (sceneIds w))"
    using keys_objSet [of "scenes (state w)" ?i "emptyScene ?i n"]
    by (simp add: sceneIds_def registered_facts)
  have entries: "set (scenes (state ?w3)) \<subseteq> insert (?i, emptyScene ?i n) (set (scenes (state w)))"
    by (simp add: registered_facts objSet_entries)
  have "distinct (sceneIds ?w3)"
    using wf by (simp add: sceneIds_def registered_facts distinct_objSet wellFormed_def)
  moreover have "distinct (displayOrder (state ?w3))"
    "set (displayOrder (state ?w3)) = set (sceneIds ?w3)"
    using wf fresh by (auto simp: registered_facts keys wellFormed_def)
  moreover have "'''' \<notin> set (sceneIds ?w3)"
    using wf newSceneId_not_empty [of w options] by (auto simp: keys wellFormed_def)
  moreover have "list_all (\<lambda>e. id' (snd e) = fst e) (scenes (state ?w3))"
    using wf by (intro registered_filed) (simp add: wellFormed_def)
  moreover have "list_all (\<lambda>e. distinct (map sceneItemId (itemsOf (nodes (snd e)))))
      (scenes (state ?w3))"
    using wf entries by (auto simp: list_all_iff wellFormed_def emptyScene_def)
  ultimately have "wellFormed ?w3"
    by (simp add: wellFormed_def)
  moreover have "wellFormed (mutate (MAKE_SCENE_ACTIVE ?i) ?w3) = wellFormed ?w3"
    by (simp add: wellFormed_def sceneIds_def mutate_def MAKE_SCENE_ACTIVE_def)
  ultimately show ?thesis
    by (simp add: cs)
qed

subsection \<open>Where the claims as stated fail\<close>



text \<open>
  When the display order names an id that no scene has, \<^verbatim>\<open>getSceneItems\<close> throws after
  the first loop: the two items of S1 are removed, S1 itself stays and no scene-removed
  event is emitted.
\<close>

lemma removeScene_throws_after_first_loop:
  "snd (snd (removeScene strayOrderWorld ''S1'' False)) = TypeError
   \<and> sceneIds (fst (removeScene strayOrderWorld ''S1'' False)) = [''S1'', ''S2'']
   \<and> getItems (fst (removeScene strayOrderWorld ''S1'' False)) ''S1'' = []
   \<and> list_all (\<lambda>e. \<not> isSceneRemoved e) (fst (snd (removeScene strayOrderWorld ''S1'' False)))
   \<and> length (fst (snd (removeScene strayOrderWorld ''S1'' False))) = 2"
  by code_simp

end
